theory Spec2Isabelle
  imports Main "HOL-Library.Log_Nat"
begin

section \<open>JavaScript values used by the relay server\<close>

text \<open>
  Every number of the server is a binary64 floating-point number. An instant is a value
  of \<open>Date.now()\<close>, an integer far below \<open>2^53\<close>, so instants and their differences are exact
  and are modelled as \<open>int\<close>. The durations \<open>onTimeMs\<close> and \<open>delayMs\<close> of a relay are numbers that
  the settings handler only checks against bounds, so they may have a fractional part:
  they are modelled by the rational value of the binary64 number, and a sum or a
  difference that involves one of them is rounded as binary64 rounds it.

  \<open>rnd x\<close> is the binary64 number nearest to \<open>x\<close>, ties to the even significand: with
  \<open>2^e \<le> |x| < 2^(e+1)\<close> the significand \<open>x / 2^(e-52)\<close> is rounded to an integer (for
  \<open>e < -1022\<close> the numbers are subnormal and spaced by \<open>2^-1074\<close>). Overflow to infinity,
  beyond \<open>2^1024\<close>, is outside the model.
\<close>

definition ilog2 :: "rat \<Rightarrow> int" where
  "ilog2 x = (if 1 \<le> x then bitlen \<lfloor>x\<rfloor> - 1 else - bitlen (\<lceil>1 / x\<rceil> - 1))"

definition round_even :: "rat \<Rightarrow> int" where
  "round_even m =
     (let f = \<lfloor>m\<rfloor>; r = m - of_int f
      in if r < 1 / 2 then f else if 1 / 2 < r then f + 1 else if even f then f else f + 1)"

definition rnd :: "rat \<Rightarrow> rat" where
  "rnd x =
     (if x = 0 then 0
      else let s = 52 - max (ilog2 \<bar>x\<bar>) (- 1022)
           in of_int (round_even (x * 2 powi s)) / 2 powi s)"

text \<open>
  The remainder operator \<open>%\<close> of JavaScript truncates the quotient towards zero, so the
  result takes the sign of the dividend, and it is exact. \<open>frem\<close> is that operator on the
  numbers above and \<open>js_rem\<close> on integers, both with a divisor other than zero (the server
  only divides by twice a positive pulse length).
\<close>

definition frem :: "rat \<Rightarrow> rat \<Rightarrow> rat" where
  "frem a b = a - b * of_int (if 0 \<le> a / b then \<lfloor>a / b\<rfloor> else \<lceil>a / b\<rceil>)"

definition js_rem :: "int \<Rightarrow> int \<Rightarrow> int" where
  "js_rem a b = sgn a * (\<bar>a\<bar> mod \<bar>b\<bar>)"

text \<open>
  \<open>String(n)\<close> on an integer that JavaScript prints in full (below \<open>10^21\<close> in absolute
  value): its decimal digits, with a minus sign when negative.
\<close>

definition digit_char :: "int \<Rightarrow> char" where
  "digit_char d = ''0123456789'' ! nat d"

function decimal :: "int \<Rightarrow> string" where
  "decimal n =
     (if n < 10 then [digit_char n] else decimal (n div 10) @ [digit_char (n mod 10)])"
  by pat_completeness auto
termination
  by (relation "measure nat") auto

declare decimal.simps [simp del]

definition String :: "int \<Rightarrow> string" where
  "String i = (if i < 0 then CHR ''-'' # decimal (- i) else decimal i)"

text \<open>
  The number that a string of decimal digits denotes; this is \<open>parseInt(k, 10)\<close> on such
  a string.
\<close>

definition parseInt :: "string \<Rightarrow> int" where
  "parseInt k = foldl (\<lambda>a c. 10 * a + (of_char c - 48)) 0 k"

subsection \<open>Objects with string keys\<close>

text \<open>
  A JavaScript object is modelled by the list of its own properties in the order in which
  \<open>for ... in\<close>, \<open>Object.keys\<close> and \<open>JSON.stringify\<close> enumerate them: the keys that are
  array indices (canonical decimal strings below \<open>2^32 - 1\<close>) in ascending numeric order,
  then the other keys in the order of their creation. The keys of an object are distinct.
\<close>

definition index_of_key :: "string \<Rightarrow> int option" where
  "index_of_key k =
     (let n = parseInt k
      in if 0 \<le> n \<and> n < 4294967295 \<and> String n = k then Some n else None)"

fun obj_update :: "string \<Rightarrow> 'a \<Rightarrow> (string \<times> 'a) list \<Rightarrow> (string \<times> 'a) list" where
  "obj_update k v [] = []"
| "obj_update k v ((k', v') # kvs) =
     (if k' = k then (k, v) # kvs else (k', v') # obj_update k v kvs)"

fun obj_insert :: "int \<Rightarrow> string \<Rightarrow> 'a \<Rightarrow> (string \<times> 'a) list \<Rightarrow> (string \<times> 'a) list" where
  "obj_insert n k v [] = [(k, v)]"
| "obj_insert n k v ((k', v') # kvs) =
     (case index_of_key k' of
        Some m \<Rightarrow> if m < n then (k', v') # obj_insert n k v kvs else (k, v) # (k', v') # kvs
      | None \<Rightarrow> (k, v) # (k', v') # kvs)"

text \<open>
  The assignment \<open>obj[k] = v\<close> of a boolean to an object made by an object literal. An
  existing property keeps its place. The key \<open>__proto__\<close> is not an own property of such an
  object: the assignment reaches the setter of \<open>Object.prototype\<close>, which ignores a value
  that is not an object, so nothing is stored.
\<close>

definition obj_set :: "string \<Rightarrow> 'a \<Rightarrow> (string \<times> 'a) list \<Rightarrow> (string \<times> 'a) list" where
  "obj_set k v kvs =
     (if k = ''__proto__'' then kvs
      else if k \<in> set (map fst kvs) then obj_update k v kvs
      else case index_of_key k of
             Some n \<Rightarrow> obj_insert n k v kvs
           | None \<Rightarrow> kvs @ [(k, v)])"

section \<open>The settings object\<close>

text \<open>
  The object \<open>alarmSettings\<close> and its parts. The server replaces the relay configuration
  and the trigger as a whole and never writes into a stored one, so they are modelled by
  values. The relay configuration and the relay states are objects keyed by relay id; a
  relay configuration built by \<open>JSON.parse\<close> can have any key as an own property,
  \<open>__proto__\<close> included.

  The pulse length of a relay enters only a doubling, remainders and comparisons, all
  exact in binary64, so no rounding is lost by keeping it an integer; a pulse length with
  a fractional part is outside the model.
\<close>

record relay_config =
  onTimeMs :: rat
  delayMs :: rat
  pulseMs :: int
  enabled :: bool

type_synonym relay_map = "(string \<times> relay_config) list"

type_synonym relay_states = "(string \<times> bool) list"

datatype trigger_source = Order | Test

record active_trigger =
  source :: trigger_source
  timestamp :: int
  relayConfig :: relay_map

text \<open>The \<open>testRelay\<close> object; \<open>tr_id = None\<close> is the \<open>null\<close> id of the idle value.\<close>

record test_relay =
  tr_id :: "int option"
  tr_onTimeMs :: int
  tr_pulseMs :: int
  tr_timestamp :: int

record alarm_settings =
  alarmEnabled :: bool
  relays :: relay_map
  activeTrigger :: "active_trigger option"
  testRelay :: test_relay
  currentRelayStates :: relay_states
  triggerActive :: bool

text \<open>The literal \<open>{ '1': false, '2': false, '3': false, '4': false }\<close>.\<close>

definition all_off :: relay_states where
  "all_off = [(''1'', False), (''2'', False), (''3'', False), (''4'', False)]"

text \<open>The literal \<open>{ id: null, onTimeMs: 0, pulseMs: 0, timestamp: 0 }\<close>.\<close>

definition no_test :: test_relay where
  "no_test = \<lparr>tr_id = None, tr_onTimeMs = 0, tr_pulseMs = 0, tr_timestamp = 0\<rparr>"

text \<open>What a subscriber reads for relay \<open>k\<close> in a map of relay states: on or not.\<close>

definition relay_on :: "string \<Rightarrow> relay_states \<Rightarrow> bool" where
  "relay_on k st = (map_of st k = Some True)"

section \<open>calculateAndBroadcastRelayStates\<close>

subsection \<open>The main active trigger\<close>

text \<open>
  The body of the loop over the snapshot of the trigger, for one relay: the value that
  is assigned to \<open>updatedRelayStates[relayId]\<close>.
\<close>

definition relay_value :: "int \<Rightarrow> int \<Rightarrow> relay_config \<Rightarrow> bool" where
  "relay_value now started config =
     (if \<not> enabled config then False
      else
        let elapsed = now - started;
            effectiveEndTime = rnd (delayMs config + onTimeMs config)
        in if of_int elapsed \<ge> delayMs config \<and> of_int elapsed < effectiveEndTime then
             (if pulseMs config > 0 then
                (let pulseCycleTime = pulseMs config * 2;
                     timeInWindow = rnd (of_int elapsed - delayMs config)
                 in frem timeInWindow (of_int pulseCycleTime) < of_int (pulseMs config))
              else True)
           else False)"

definition relay_loop :: "int \<Rightarrow> active_trigger \<Rightarrow> relay_states \<Rightarrow> relay_states" where
  "relay_loop now tr updatedRelayStates =
     fold (\<lambda>(relayId, config). obj_set relayId (relay_value now (timestamp tr) config))
       (relayConfig tr) updatedRelayStates"

text \<open>
  The test of the end of the trigger. The sum \<open>timestamp + delayMs + onTimeMs\<close> is two
  additions, each rounded.
\<close>

definition allEnabledTriggerRelaysFinished :: "int \<Rightarrow> active_trigger \<Rightarrow> bool" where
  "allEnabledTriggerRelaysFinished now tr =
     list_all (\<lambda>(relayId, config).
        if \<not> enabled config then True
        else of_int now \<ge> rnd (rnd (of_int (timestamp tr) + delayMs config) + onTimeMs config))
       (relayConfig tr)"

text \<open>
  The first block of the function. It returns \<open>updatedRelayStates\<close>, \<open>newTriggerActive\<close>
  and the value of \<open>alarmSettings.activeTrigger\<close> after the block. (The variable
  \<open>allRelaysFinished\<close> of the source is written and never read.)
\<close>

definition main_trigger ::
  "int \<Rightarrow> bool \<Rightarrow> active_trigger option \<Rightarrow> relay_states \<times> bool \<times> active_trigger option" where
  "main_trigger now alarm_on trig =
     (case trig of
        None \<Rightarrow> (all_off, False, None)
      | Some tr \<Rightarrow>
          if \<not> alarm_on then (all_off, False, Some tr)
          else if allEnabledTriggerRelaysFinished now tr then (all_off, False, None)
          else (relay_loop now tr all_off, True, Some tr))"

subsection \<open>The test relay command\<close>

datatype effect = SaveSettings | BroadcastSettings | ClearInterval nat | SetInterval nat int

definition test_pending :: "test_relay \<Rightarrow> bool" where
  "test_pending t = (tr_id t \<noteq> None \<and> tr_onTimeMs t > 0)"

definition test_value :: "int \<Rightarrow> test_relay \<Rightarrow> bool" where
  "test_value now t =
     (let elapsedTest = now - tr_timestamp t; testPulseMs = tr_pulseMs t
      in if testPulseMs > 0 then
           (let pulseCycleTime = testPulseMs * 2
            in js_rem elapsedTest pulseCycleTime < testPulseMs)
         else True)"

text \<open>
  The second block. It takes the values left by the first block and returns
  \<open>updatedRelayStates\<close>, \<open>newTriggerActive\<close>, the new \<open>testRelay\<close> and the effects
  (the call of \<open>saveSettings\<close> when the test has finished).
\<close>

definition test_override ::
  "int \<Rightarrow> test_relay \<Rightarrow> active_trigger option \<Rightarrow> relay_states \<Rightarrow> bool \<Rightarrow>
     relay_states \<times> bool \<times> test_relay \<times> effect list" where
  "test_override now t trig updatedRelayStates newTriggerActive =
     (case tr_id t of
        None \<Rightarrow> (updatedRelayStates, newTriggerActive, t, [])
      | Some i \<Rightarrow>
          if \<not> tr_onTimeMs t > 0 then (updatedRelayStates, newTriggerActive, t, [])
          else
            let testRelayId = String i;
                elapsedTest = now - tr_timestamp t;
                testEndTime = tr_onTimeMs t
            in if elapsedTest < testEndTime then
                 (obj_set testRelayId (test_value now t) updatedRelayStates, True, t, [])
               else
                 ((if trig = None then obj_set testRelayId False updatedRelayStates
                   else updatedRelayStates),
                  newTriggerActive, no_test, [SaveSettings]))"

subsection \<open>The change-detecting gate\<close>

text \<open>
  \<open>JSON.stringify\<close> of two maps of relay states gives the same text exactly when they list
  the same keys with the same values in the same order, so the comparison of the two
  texts is the comparison of the two lists. \<open>falsy_id\<close> is \<open>!alarmSettings.testRelay.id\<close>.
\<close>

definition falsy_id :: "int option \<Rightarrow> bool" where
  "falsy_id i = (i = None \<or> i = Some 0)"

text \<open>
  The third block, run on the settings left by the first two. It returns the effects
  (\<open>saveSettings\<close>, then \<open>broadcastSettings\<close>) and the settings.
\<close>

definition publish ::
  "relay_states \<Rightarrow> bool \<Rightarrow> alarm_settings \<Rightarrow> effect list \<times> alarm_settings" where
  "publish updatedRelayStates newTriggerActive s =
     (let relayStatesChanged = (updatedRelayStates \<noteq> currentRelayStates s);
          triggerActiveChanged = (newTriggerActive \<noteq> triggerActive s)
      in if relayStatesChanged \<or> triggerActiveChanged \<or> test_pending (testRelay s) then
           ((if activeTrigger s = None \<and> \<not> newTriggerActive \<and> falsy_id (tr_id (testRelay s))
             then [SaveSettings] else []) @ [BroadcastSettings],
            s\<lparr>currentRelayStates := updatedRelayStates, triggerActive := newTriggerActive\<rparr>)
         else ([], s))"

subsection \<open>The interval\<close>

text \<open>
  The server process: the settings, the variable \<open>intervalId\<close>, and the part of the
  runtime the function acts on, namely the interval timers that call it every 100 ms.
  \<open>setInterval\<close> makes a timer with a handle not used before (the number of timers made
  so far) and the given period, and \<open>clearInterval\<close> removes the timer with the given
  handle. A handle is an object, so \<open>intervalId\<close> is truthy exactly when it is not \<open>null\<close>.
\<close>

record server =
  settings :: alarm_settings
  intervalId :: "nat option"
  timers :: "nat list"
  timers_made :: nat

definition manage_interval :: "server \<Rightarrow> effect list \<times> server" where
  "manage_interval sv =
     (let s = settings sv
      in if activeTrigger s = None \<and> tr_id (testRelay s) = None \<and> intervalId sv \<noteq> None then
           ([ClearInterval (the (intervalId sv))],
            sv\<lparr>timers := removeAll (the (intervalId sv)) (timers sv), intervalId := None\<rparr>)
         else if (activeTrigger s \<noteq> None \<or> tr_id (testRelay s) \<noteq> None) \<and> intervalId sv = None then
           ([SetInterval (timers_made sv) 100],
            sv\<lparr>intervalId := Some (timers_made sv),
               timers := timers_made sv # timers sv,
               timers_made := Suc (timers_made sv)\<rparr>)
         else ([], sv))"

subsection \<open>The whole function\<close>

text \<open>\<open>now\<close> is the value of \<open>Date.now()\<close> read at the start of the call.\<close>

definition calculateAndBroadcastRelayStates :: "int \<Rightarrow> server \<Rightarrow> effect list \<times> server" where
  "calculateAndBroadcastRelayStates now sv =
     (let s = settings sv;
          (st1, ta1, trig1) = main_trigger now (alarmEnabled s) (activeTrigger s);
          (st2, ta2, test2, eff2) = test_override now (testRelay s) trig1 st1 ta1;
          (eff3, s3) = publish st2 ta2 (s\<lparr>activeTrigger := trig1, testRelay := test2\<rparr>);
          (eff4, sv4) = manage_interval (sv\<lparr>settings := s3\<rparr>)
      in (eff2 @ eff3 @ eff4, sv4))"

section \<open>The command handlers\<close>

subsection \<open>Request bodies\<close>

text \<open>
  A decoded JSON value, or \<open>undefined\<close> for a field that the body lacks. The numbers of
  the requests modelled here are integers; a duration with a fractional part, which the
  handler accepts as well, enters the model through the state.
\<close>

datatype json =
  JUndefined | JNull | JBool bool | JNum int | JStr string
  | JArr "json list" | JObj "(string \<times> json) list"

fun typeof :: "json \<Rightarrow> string" where
  "typeof JUndefined = ''undefined''"
| "typeof JNull = ''object''"
| "typeof (JBool b) = ''boolean''"
| "typeof (JNum n) = ''number''"
| "typeof (JStr s) = ''string''"
| "typeof (JArr xs) = ''object''"
| "typeof (JObj kvs) = ''object''"

text \<open>
  The enumerable own properties, as \<open>Object.keys\<close> and \<open>for ... in\<close> list them; \<open>None\<close>
  is the \<open>TypeError\<close> that \<open>Object.keys\<close> throws on \<open>null\<close> and \<open>undefined\<close>.
\<close>

definition index_keys :: "nat \<Rightarrow> string list" where
  "index_keys n = map (\<lambda>i. String (int i)) [0..<n]"

fun own_props :: "json \<Rightarrow> (string \<times> json) list option" where
  "own_props JUndefined = None"
| "own_props JNull = None"
| "own_props (JBool b) = Some []"
| "own_props (JNum n) = Some []"
| "own_props (JStr s) = Some (zip (index_keys (length s)) (map (\<lambda>c. JStr [c]) s))"
| "own_props (JArr xs) = Some (zip (index_keys (length xs)) xs)"
| "own_props (JObj kvs) = Some kvs"

text \<open>
  Reading one of the properties \<open>onTimeMs\<close>, \<open>delayMs\<close>, \<open>pulseMs\<close>, \<open>enabled\<close> of a value
  other than \<open>null\<close> and \<open>undefined\<close>: only an object can have them.
\<close>

fun read_prop :: "json \<Rightarrow> string \<Rightarrow> json" where
  "read_prop (JObj kvs) k = (case map_of kvs k of Some v \<Rightarrow> v | None \<Rightarrow> JUndefined)"
| "read_prop _ k = JUndefined"

datatype failure =
  InvalidAlarmEnabled | InvalidRelays
  | InvalidOnTimeMs string | InvalidDelayMs string | InvalidPulseMs string
  | InvalidEnabled string
  | InvalidRelayId | RelayDisabled string
  | TypeError

datatype response = Success | NoActiveAlarm | Ignored | Rejected failure

subsection \<open>POST /api/dashboard/settings\<close>

text \<open>
  The body of the loop over the relays of the request, for one relay: the first check
  that fails, or the four validated fields. Reading a property of \<open>null\<close> throws.
\<close>

definition validate_relay :: "string \<Rightarrow> json \<Rightarrow> failure + relay_config" where
  "validate_relay ident relay =
     (if relay = JNull \<or> relay = JUndefined then Inl TypeError
      else case read_prop relay ''onTimeMs'' of
        JNum ontime \<Rightarrow>
          if ontime < 100 \<or> ontime > 600000 then Inl (InvalidOnTimeMs ident)
          else (case read_prop relay ''delayMs'' of
            JNum delay \<Rightarrow>
              if delay < 0 \<or> delay > 600000 then Inl (InvalidDelayMs ident)
              else (case read_prop relay ''pulseMs'' of
                JNum pulse \<Rightarrow>
                  if pulse < 0 \<or> pulse > 5000 then Inl (InvalidPulseMs ident)
                  else (case read_prop relay ''enabled'' of
                    JBool en \<Rightarrow>
                      Inr \<lparr>onTimeMs = of_int ontime, delayMs = of_int delay,
                           pulseMs = pulse, enabled = en\<rparr>
                  | _ \<Rightarrow> Inl (InvalidEnabled ident))
              | _ \<Rightarrow> Inl (InvalidPulseMs ident))
          | _ \<Rightarrow> Inl (InvalidDelayMs ident))
      | _ \<Rightarrow> Inl (InvalidOnTimeMs ident))"

fun validate_relays :: "(string \<times> json) list \<Rightarrow> failure + relay_map" where
  "validate_relays [] = Inr []"
| "validate_relays ((ident, relay) # rest) =
     (case validate_relay ident relay of
        Inl e \<Rightarrow> Inl e
      | Inr config \<Rightarrow>
          (case validate_relays rest of
             Inl e \<Rightarrow> Inl e
           | Inr configs \<Rightarrow> Inr ((ident, config) # configs)))"

text \<open>
  The handler, after authentication. The two arguments are the fields \<open>alarmEnabled\<close> and
  \<open>relays\<close> of the body (\<open>JUndefined\<close> when absent). An uncaught \<open>TypeError\<close> ends the
  handler where it is thrown. Of each stored relay only the four validated fields are
  ever read again, so the stored configuration is the map of these fields.
\<close>

definition post_settings ::
  "json \<Rightarrow> json \<Rightarrow> int \<Rightarrow> server \<Rightarrow> response \<times> effect list \<times> server" where
  "post_settings alarm_field relays_field now sv =
     (case alarm_field of
        JBool alarm_on \<Rightarrow>
          if typeof relays_field \<noteq> ''object'' then (Rejected InvalidRelays, [], sv)
          else (case own_props relays_field of
            None \<Rightarrow> (Rejected TypeError, [], sv)
          | Some props \<Rightarrow>
              if length props \<noteq> 4 then (Rejected InvalidRelays, [], sv)
              else (case validate_relays props of
                Inl e \<Rightarrow> (Rejected e, [], sv)
              | Inr configs \<Rightarrow>
                  let sv1 = sv\<lparr>settings := (settings sv)\<lparr>alarmEnabled := alarm_on, relays := configs\<rparr>\<rparr>;
                      (eff, sv2) = calculateAndBroadcastRelayStates now sv1
                  in (Success, SaveSettings # eff, sv2)))
      | _ \<Rightarrow> (Rejected InvalidAlarmEnabled, [], sv))"

subsection \<open>POST /webhook/order\<close>

text \<open>
  \<open>JSON.parse(JSON.stringify(relays))\<close> builds a new object with the same keys, in the same
  order, and a new object with the same four fields for each relay.
\<close>

definition deep_copy :: "relay_map \<Rightarrow> relay_map" where
  "deep_copy m =
     map (\<lambda>(k, c). (k, \<lparr>onTimeMs = onTimeMs c, delayMs = delayMs c,
                         pulseMs = pulseMs c, enabled = enabled c\<rparr>)) m"

text \<open>
  The handler, after the check of the secret. \<open>started\<close> is the \<open>Date.now()\<close> stored in the
  trigger and \<open>now\<close> the one read by the evaluation that follows.
\<close>

definition webhook_order :: "int \<Rightarrow> int \<Rightarrow> server \<Rightarrow> response \<times> effect list \<times> server" where
  "webhook_order started now sv =
     (let s = settings sv
      in if alarmEnabled s then
           let sv1 = sv\<lparr>settings := s\<lparr>activeTrigger :=
                        Some \<lparr>source = Order, timestamp = started,
                              relayConfig = deep_copy (relays s)\<rparr>\<rparr>\<rparr>;
               (eff, sv2) = calculateAndBroadcastRelayStates now sv1
           in (Success, eff, sv2)
         else (Ignored, [], sv))"

subsection \<open>POST /api/dashboard/commands/test-relay/:id\<close>

text \<open>
  The handler, after authentication. The guard leaves only strings of one decimal digit
  to \<open>parseInt\<close>. Reading \<open>enabled\<close> of a relay that the configuration lacks throws.
\<close>

definition test_relay_command ::
  "string \<Rightarrow> int \<Rightarrow> int \<Rightarrow> server \<Rightarrow> response \<times> effect list \<times> server" where
  "test_relay_command relayId started now sv =
     (if relayId \<notin> set [''1'', ''2'', ''3'', ''4''] then (Rejected InvalidRelayId, [], sv)
      else case map_of (relays (settings sv)) relayId of
        None \<Rightarrow> (Rejected TypeError, [], sv)
      | Some currentRelayConfig \<Rightarrow>
          if \<not> enabled currentRelayConfig then (Rejected (RelayDisabled relayId), [], sv)
          else
            let sv1 = sv\<lparr>settings := (settings sv)\<lparr>testRelay :=
                         \<lparr>tr_id = Some (parseInt relayId), tr_onTimeMs = 500,
                          tr_pulseMs = pulseMs currentRelayConfig, tr_timestamp = started\<rparr>\<rparr>\<rparr>;
                (eff, sv2) = calculateAndBroadcastRelayStates now sv1
            in (Success, eff, sv2))"

subsection \<open>POST /api/dashboard/commands/deactivate-alarm\<close>

definition deactivate_alarm :: "int \<Rightarrow> server \<Rightarrow> response \<times> effect list \<times> server" where
  "deactivate_alarm now sv =
     (let s = settings sv
      in if activeTrigger s \<noteq> None \<or> tr_id (testRelay s) \<noteq> None \<or> triggerActive s then
           let sv1 = sv\<lparr>settings := s\<lparr>activeTrigger := None, testRelay := no_test\<rparr>\<rparr>;
               (eff, sv2) = calculateAndBroadcastRelayStates now sv1
           in (Success, eff, sv2)
         else (NoActiveAlarm, [], sv))"

section \<open>Derived notions and example states\<close>

text \<open>
  A test is in flight at \<open>now\<close> when the second block of the evaluation takes its first
  branch: the id is set, the duration is positive and the elapsed time is below it.
\<close>

definition test_in_flight :: "int \<Rightarrow> test_relay \<Rightarrow> bool" where
  "test_in_flight now t = (test_pending t \<and> now - tr_timestamp t < tr_onTimeMs t)"

text \<open>
  The durations of a relay are integers and, with the start of the trigger, small enough
  for every sum of the evaluation to be exact in binary64.
\<close>

definition exact_durations :: "int \<Rightarrow> relay_config \<Rightarrow> bool" where
  "exact_durations started c =
     (of_int \<lfloor>delayMs c\<rfloor> = delayMs c \<and> of_int \<lfloor>onTimeMs c\<rfloor> = onTimeMs c \<and>
      \<bar>of_int started\<bar> + \<bar>delayMs c\<bar> + \<bar>onTimeMs c\<bar> < 2 ^ 53)"

text \<open>The id of the test, if any, is one of the four relays, as the test command ensures.\<close>

definition test_id_valid :: "test_relay \<Rightarrow> bool" where
  "test_id_valid t = (case tr_id t of None \<Rightarrow> True | Some i \<Rightarrow> i \<in> {1, 2, 3, 4})"

text \<open>The timers of the runtime are exactly the one that \<open>intervalId\<close> holds, if any.\<close>

definition timer_inv :: "server \<Rightarrow> bool" where
  "timer_inv sv = (timers sv = (case intervalId sv of None \<Rightarrow> [] | Some h \<Rightarrow> [h]))"

abbreviation server_after :: "int \<Rightarrow> server \<Rightarrow> server" where
  "server_after now sv \<equiv> snd (calculateAndBroadcastRelayStates now sv)"

abbreviation settings_after :: "int \<Rightarrow> server \<Rightarrow> alarm_settings" where
  "settings_after now sv \<equiv> settings (snd (calculateAndBroadcastRelayStates now sv))"

abbreviation effects_of :: "int \<Rightarrow> server \<Rightarrow> effect list" where
  "effects_of now sv \<equiv> fst (calculateAndBroadcastRelayStates now sv)"

text \<open>The initial value of \<open>alarmSettings\<close> in the source, and a server that has just started.\<close>

definition default_relays :: relay_map where
  "default_relays =
     [(''1'', \<lparr>onTimeMs = 5000, delayMs = 0, pulseMs = 0, enabled = True\<rparr>),
      (''2'', \<lparr>onTimeMs = 5000, delayMs = 1000, pulseMs = 0, enabled = True\<rparr>),
      (''3'', \<lparr>onTimeMs = 5000, delayMs = 2000, pulseMs = 0, enabled = True\<rparr>),
      (''4'', \<lparr>onTimeMs = 5000, delayMs = 3000, pulseMs = 0, enabled = True\<rparr>)]"

definition idle_settings :: alarm_settings where
  "idle_settings = \<lparr>alarmEnabled = True, relays = default_relays, activeTrigger = None,
     testRelay = no_test, currentRelayStates = all_off, triggerActive = False\<rparr>"

definition idle_server :: server where
  "idle_server = \<lparr>settings = idle_settings, intervalId = None, timers = [], timers_made = 0\<rparr>"

text \<open>A server whose interval timer, the first one made, is running.\<close>

definition running :: "alarm_settings \<Rightarrow> server" where
  "running s = \<lparr>settings = s, intervalId = Some 0, timers = [0], timers_made = 1\<rparr>"

text \<open>
  The trigger of an order received at time 0 under the initial configuration. Its last
  relay ends at time 8000.
\<close>

definition trigger_A :: active_trigger where
  "trigger_A = \<lparr>source = Order, timestamp = 0, relayConfig = default_relays\<rparr>"

definition triggered_settings :: alarm_settings where
  "triggered_settings = idle_settings\<lparr>activeTrigger := Some trigger_A\<rparr>"

text \<open>The same trigger after the alarm has been disabled.\<close>

definition disabled_settings :: alarm_settings where
  "disabled_settings = idle_settings\<lparr>alarmEnabled := False, activeTrigger := Some trigger_A\<rparr>"

text \<open>
  The same trigger while a test of relay 1, started at time 7900, is in flight; the stored
  relay states are those of time 7900.
\<close>

definition test1 :: test_relay where
  "test1 = \<lparr>tr_id = Some 1, tr_onTimeMs = 500, tr_pulseMs = 0, tr_timestamp = 7900\<rparr>"

definition overlap_settings :: alarm_settings where
  "overlap_settings = idle_settings\<lparr>activeTrigger := Some trigger_A, testRelay := test1,
     currentRelayStates := [(''1'', True), (''2'', False), (''3'', False), (''4'', True)],
     triggerActive := True\<rparr>"

text \<open>
  A configuration in which relay 2 pulses (on for 2000 ms after 1000 ms, pulse 200 ms) and
  relay 3 pulses with 100 ms; the trigger of an order received at time 0 under it; and a
  test of relay 3, started at time 4900, without a trigger.
\<close>

definition relay2_B :: relay_config where
  "relay2_B = \<lparr>onTimeMs = 2000, delayMs = 1000, pulseMs = 200, enabled = True\<rparr>"

definition pulse_relays :: relay_map where
  "pulse_relays =
     [(''1'', \<lparr>onTimeMs = 5000, delayMs = 0, pulseMs = 0, enabled = True\<rparr>),
      (''2'', relay2_B),
      (''3'', \<lparr>onTimeMs = 5000, delayMs = 2000, pulseMs = 100, enabled = True\<rparr>),
      (''4'', \<lparr>onTimeMs = 5000, delayMs = 3000, pulseMs = 0, enabled = True\<rparr>)]"

definition trigger_B :: active_trigger where
  "trigger_B = \<lparr>source = Order, timestamp = 0, relayConfig = pulse_relays\<rparr>"

definition test3_pulse :: test_relay where
  "test3_pulse = \<lparr>tr_id = Some 3, tr_onTimeMs = 500, tr_pulseMs = 100, tr_timestamp = 4900\<rparr>"

definition testing_settings :: alarm_settings where
  "testing_settings = idle_settings\<lparr>relays := pulse_relays, testRelay := test3_pulse\<rparr>"

text \<open>A configuration with every relay disabled, and the trigger of an order under it.\<close>

definition off_relays :: relay_map where
  "off_relays =
     [(''1'', \<lparr>onTimeMs = 5000, delayMs = 0, pulseMs = 0, enabled = False\<rparr>),
      (''2'', \<lparr>onTimeMs = 5000, delayMs = 1000, pulseMs = 0, enabled = False\<rparr>),
      (''3'', \<lparr>onTimeMs = 5000, delayMs = 2000, pulseMs = 0, enabled = False\<rparr>),
      (''4'', \<lparr>onTimeMs = 5000, delayMs = 3000, pulseMs = 0, enabled = False\<rparr>)]"

definition trigger_off :: active_trigger where
  "trigger_off = \<lparr>source = Order, timestamp = 0, relayConfig = off_relays\<rparr>"

definition off_settings :: alarm_settings where
  "off_settings = idle_settings\<lparr>relays := off_relays, activeTrigger := Some trigger_off\<rparr>"

text \<open>
  A configuration whose relay 1 has a delay of \<open>2^-14\<close> ms, a binary64 number within the
  bounds of the settings handler, while the other relays are disabled; the trigger of an
  order received under it at the instant 1700000000000; and the state that holds it.
\<close>

definition relay1_F :: relay_config where
  "relay1_F = \<lparr>onTimeMs = 100, delayMs = 1 / 16384, pulseMs = 0, enabled = True\<rparr>"

definition fraction_relays :: relay_map where
  "fraction_relays =
     [(''1'', relay1_F),
      (''2'', \<lparr>onTimeMs = 5000, delayMs = 1000, pulseMs = 0, enabled = False\<rparr>),
      (''3'', \<lparr>onTimeMs = 5000, delayMs = 2000, pulseMs = 0, enabled = False\<rparr>),
      (''4'', \<lparr>onTimeMs = 5000, delayMs = 3000, pulseMs = 0, enabled = False\<rparr>)]"

definition trigger_F :: active_trigger where
  "trigger_F = \<lparr>source = Order, timestamp = 1700000000000, relayConfig = fraction_relays\<rparr>"

definition fraction_settings :: alarm_settings where
  "fraction_settings = idle_settings\<lparr>relays := fraction_relays, activeTrigger := Some trigger_F\<rparr>"

text \<open>The same with a delay of \<open>2^-60\<close> ms, which the sum with 100 ms on absorbs.\<close>

definition relay1_G :: relay_config where
  "relay1_G = \<lparr>onTimeMs = 100, delayMs = 1 / 1152921504606846976, pulseMs = 0, enabled = True\<rparr>"

definition trigger_G :: active_trigger where
  "trigger_G = \<lparr>source = Order, timestamp = 1700000000000,
     relayConfig = (''1'', relay1_G) # tl fraction_relays\<rparr>"

text \<open>
  A configuration of four relays one of which has the id \<open>__proto__\<close>, as the settings
  handler accepts it, and the trigger of an order received at time 0 under it.
\<close>

definition relay_P :: relay_config where
  "relay_P = \<lparr>onTimeMs = 5000, delayMs = 0, pulseMs = 0, enabled = True\<rparr>"

definition proto_relays :: relay_map where
  "proto_relays =
     [(''1'', \<lparr>onTimeMs = 5000, delayMs = 0, pulseMs = 0, enabled = True\<rparr>),
      (''2'', \<lparr>onTimeMs = 5000, delayMs = 1000, pulseMs = 0, enabled = True\<rparr>),
      (''3'', \<lparr>onTimeMs = 5000, delayMs = 2000, pulseMs = 0, enabled = True\<rparr>),
      (''__proto__'', relay_P)]"

definition trigger_P :: active_trigger where
  "trigger_P = \<lparr>source = Order, timestamp = 0, relayConfig = proto_relays\<rparr>"

text \<open>
  Following the specification: the bounds of a relay configuration, \<open>onTimeMs\<close> in
  \<open>[100, 600000]\<close>, \<open>delayMs\<close> in \<open>[0, 600000]\<close>, \<open>pulseMs\<close> in \<open>[0, 5000]\<close> and \<open>enabled\<close> a
  boolean, read on a relay of a request; and a \<open>relays\<close> field that is an object with
  exactly four entries, each within these bounds.
\<close>

fun num_in :: "int \<Rightarrow> int \<Rightarrow> json \<Rightarrow> bool" where
  "num_in lo hi (JNum n) = (lo \<le> n \<and> n \<le> hi)"
| "num_in lo hi _ = False"

fun is_bool :: "json \<Rightarrow> bool" where
  "is_bool (JBool b) = True"
| "is_bool _ = False"

definition relay_in_bounds :: "json \<Rightarrow> bool" where
  "relay_in_bounds relay =
     (num_in 100 600000 (read_prop relay ''onTimeMs'') \<and>
      num_in 0 600000 (read_prop relay ''delayMs'') \<and>
      num_in 0 5000 (read_prop relay ''pulseMs'') \<and>
      is_bool (read_prop relay ''enabled''))"

definition four_relays_in_bounds :: "json \<Rightarrow> bool" where
  "four_relays_in_bounds relays_field =
     (typeof relays_field = ''object'' \<and>
      (case own_props relays_field of
         None \<Rightarrow> False
       | Some props \<Rightarrow> length props = 4 \<and> list_all (\<lambda>(k, relay). relay_in_bounds relay) props))"

text \<open>The configuration that a request in bounds denotes.\<close>

fun num_of :: "json \<Rightarrow> int" where
  "num_of (JNum n) = n"
| "num_of _ = 0"

fun bool_of :: "json \<Rightarrow> bool" where
  "bool_of (JBool b) = b"
| "bool_of _ = False"

definition config_of :: "json \<Rightarrow> relay_config" where
  "config_of relay =
     \<lparr>onTimeMs = of_int (num_of (read_prop relay ''onTimeMs'')),
      delayMs = of_int (num_of (read_prop relay ''delayMs'')),
      pulseMs = num_of (read_prop relay ''pulseMs''),
      enabled = bool_of (read_prop relay ''enabled'')\<rparr>"

definition configs_of :: "json \<Rightarrow> relay_map" where
  "configs_of relays_field =
     (case own_props relays_field of
        None \<Rightarrow> []
      | Some props \<Rightarrow> map (\<lambda>(k, relay). (k, config_of relay)) props)"

text \<open>
  A relay of a request, a request for the relays 1 to 4, and a request whose four relays
  have other ids.
\<close>

definition relay_json :: json where
  "relay_json = JObj [(''onTimeMs'', JNum 5000), (''delayMs'', JNum 0),
                      (''pulseMs'', JNum 0), (''enabled'', JBool True)]"

definition valid_relays :: json where
  "valid_relays = JObj [(''1'', relay_json), (''2'', relay_json), (''3'', relay_json), (''4'', relay_json)]"

definition other_ids :: json where
  "other_ids = JObj [(''5'', relay_json), (''6'', relay_json), (''7'', relay_json), (''8'', relay_json)]"

text \<open>The initial settings with the alarm disabled.\<close>

definition quiet_settings :: alarm_settings where
  "quiet_settings = idle_settings\<lparr>alarmEnabled := False\<rparr>"

section \<open>Auxiliary facts\<close>

lemma round_even_of_int: "round_even (of_int k) = k"
  by (simp add: round_even_def)

lemma ilog2_of_int: "1 \<le> m \<Longrightarrow> ilog2 (of_int m) = bitlen m - 1"
  by (simp add: ilog2_def)

lemma rnd_of_int:
  assumes "\<bar>n\<bar> < 2 ^ 53"
  shows "rnd (of_int n) = of_int n"
proof (cases "n = 0")
  case True
  then show ?thesis by (simp add: rnd_def)
next
  case False
  then have pos: "0 < \<bar>n\<bar>" by simp
  define e where "e = bitlen \<bar>n\<bar> - 1"
  have "1 \<le> bitlen \<bar>n\<bar>"
    using pos bitlen_eq_zero_iff[of "\<bar>n\<bar>"] bitlen_nonneg[of "\<bar>n\<bar>"] by linarith
  moreover from assms have "bitlen \<bar>n\<bar> \<le> 53"
    by (simp add: bitlen_le_iff_power)
  ultimately have e: "0 \<le> e" "e \<le> 52" by (simp_all add: e_def)
  have il: "ilog2 \<bar>of_int n\<bar> = e"
  proof -
    have a: "\<bar>rat_of_int n\<bar> = of_int \<bar>n\<bar>" by simp
    have b: "1 \<le> \<bar>n\<bar>" using pos by simp
    show ?thesis unfolding a e_def by (rule ilog2_of_int[OF b])
  qed
  define k where "k = nat (52 - e)"
  have s: "52 - max e (- 1022) = int k"
    using e by (simp add: k_def)
  have nz: "rat_of_int n \<noteq> 0" using False by simp
  have "rnd (of_int n) = of_int (round_even (of_int n * 2 powi int k)) / 2 powi int k"
    by (simp only: rnd_def Let_def il nz if_False s)
  also have "\<dots> = of_int (round_even (of_int (n * 2 ^ k))) / 2 ^ k"
    by simp
  also have "\<dots> = of_int n"
    by (simp only: round_even_of_int) simp
  finally show ?thesis .
qed

lemma rnd_exact:
  assumes "of_int \<lfloor>x\<rfloor> = x" and "\<bar>x\<bar> < 2 ^ 53"
  shows "rnd x = x"
proof -
  from assms(2) have "\<bar>rat_of_int \<lfloor>x\<rfloor>\<bar> < 2 ^ 53" by (simp only: assms(1))
  then have "\<bar>\<lfloor>x\<rfloor>\<bar> < 2 ^ 53"
    by (metis of_int_abs of_int_less_numeral_power_cancel_iff)
  from rnd_of_int[OF this] show ?thesis by (simp only: assms(1))
qed

lemma rnd_0 [simp]: "rnd 0 = 0"
  by (simp add: rnd_def)

lemma rnd_numeral [simp]:
  "(numeral k :: int) < 9007199254740992 \<Longrightarrow> rnd (numeral k) = numeral k"
  using rnd_of_int[of "numeral k"] by simp

lemma frem_of_int:
  assumes "0 \<le> a" and "0 < b"
  shows "frem (of_int a) (of_int b) = of_int (a mod b)"
proof -
  have q: "\<lfloor>rat_of_int a / rat_of_int b\<rfloor> = a div b"
    by (rule floor_divide_of_int_eq)
  have nonneg: "0 \<le> rat_of_int a / rat_of_int b"
    using assms by simp
  have "frem (of_int a) (of_int b) = of_int a - of_int b * of_int (a div b)"
    by (simp only: frem_def nonneg if_True q)
  also have "\<dots> = of_int (a - b * (a div b))" by simp
  also have "a - b * (a div b) = a mod b"
    by (simp add: minus_mult_div_eq_mod)
  finally show ?thesis .
qed

lemma decimal_digits: "set (decimal n) \<subseteq> set ''0123456789''"
proof (induction n rule: decimal.induct)
  case (1 n)
  have digit: "0 \<le> d \<Longrightarrow> d < 10 \<Longrightarrow> digit_char d \<in> set ''0123456789''" for d
  proof -
    assume "0 \<le> d" "d < 10"
    then have "nat d < length ''0123456789''" by simp
    then show ?thesis unfolding digit_char_def by (rule nth_mem)
  qed
  have small: "digit_char d \<in> set ''0123456789''" if "d < 10" for d
  proof (cases "0 \<le> d")
    case True
    from digit[OF True that] show ?thesis .
  next
    case False
    then have "nat d = 0" by simp
    then show ?thesis by (simp add: digit_char_def)
  qed
  show ?case
  proof (cases "n < 10")
    case True
    then show ?thesis
      using small[OF True] by (subst decimal.simps) simp
  next
    case False
    have "digit_char (n mod 10) \<in> set ''0123456789''"
      by (rule digit) simp_all
    with False 1 show ?thesis
      by (subst decimal.simps) simp
  qed
qed

lemma String_not_proto [simp]: "String i \<noteq> ''__proto__''" "''__proto__'' \<noteq> String i"
proof -
  have "CHR ''p'' \<notin> set (String i)"
    using decimal_digits[of i] decimal_digits[of "- i"] by (auto simp add: String_def)
  then show "String i \<noteq> ''__proto__''" by auto
  then show "''__proto__'' \<noteq> String i" by simp
qed

lemma js_rem_nonneg: "0 \<le> a \<Longrightarrow> 0 < b \<Longrightarrow> js_rem a b = a mod b"
  by (simp add: js_rem_def sgn_if)

lemma map_of_obj_update:
  "map_of (obj_update k v kvs) k' =
     (if k' = k \<and> map_of kvs k \<noteq> None then Some v else map_of kvs k')"
  by (induction kvs) auto

lemma map_of_obj_insert:
  "map_of kvs k = None \<Longrightarrow>
   map_of (obj_insert n k v kvs) k' = (if k' = k then Some v else map_of kvs k')"
  by (induction kvs) (auto split: option.splits if_splits)

lemma obj_set_proto: "obj_set ''__proto__'' v kvs = kvs"
  by (simp add: obj_set_def)

lemma map_of_obj_set:
  "map_of (obj_set k v kvs) k' =
     (if k' = k \<and> k \<noteq> ''__proto__'' then Some v else map_of kvs k')"
proof (cases "k = ''__proto__''")
  case True
  then show ?thesis by (simp add: obj_set_proto)
next
  case other: False
  show ?thesis
  proof (cases "map_of kvs k")
    case None
    then have "k \<notin> set (map fst kvs)" by (simp add: map_of_eq_None_iff)
    with None other show ?thesis
      by (auto simp add: obj_set_def map_of_obj_insert map_add_def simp del: set_map
          split: option.splits)
  next
    case (Some w)
    then have "k \<in> set (map fst kvs)" by (metis map_of_eq_None_iff option.distinct(1) set_map)
    with Some other show ?thesis
      by (simp add: obj_set_def map_of_obj_update del: set_map)
  qed
qed

lemma relay_on_obj_set:
  "relay_on k' (obj_set k v st) = (if k' = k \<and> k \<noteq> ''__proto__'' then v else relay_on k' st)"
  by (simp add: relay_on_def map_of_obj_set)

lemma obj_update_same:
  "map_of kvs k = Some v \<Longrightarrow> obj_update k v kvs = kvs"
  by (induction kvs) (auto split: if_splits)

lemma obj_set_same: "map_of kvs k = Some v \<Longrightarrow> obj_set k v kvs = kvs"
  using map_of_SomeD[of kvs k v] by (force simp add: obj_set_def obj_update_same)

lemma map_of_fold_obj_set:
  "distinct (map fst cfg) \<Longrightarrow>
   map_of (fold (\<lambda>(k, c). obj_set k (f c)) cfg st) k' =
     (if k' = ''__proto__'' then map_of st k'
      else case map_of cfg k' of Some c \<Rightarrow> Some (f c) | None \<Rightarrow> map_of st k')"
proof (induction cfg arbitrary: st)
  case Nil
  then show ?case by simp
next
  case (Cons x cfg)
  obtain k c where x: "x = (k, c)" by (cases x)
  from Cons.prems have d: "distinct (map fst cfg)" and nk: "k \<notin> fst ` set cfg"
    by (simp_all add: x)
  from nk have none: "map_of cfg k = None" by (simp add: map_of_eq_None_iff)
  show ?case
    using Cons.IH[OF d, of "obj_set k (f c) st"] none
    by (auto simp add: x map_of_obj_set split: option.splits)
qed

lemma relay_on_relay_loop:
  assumes "distinct (map fst (relayConfig tr))" and "(k, c) \<in> set (relayConfig tr)"
    and "k \<noteq> ''__proto__''"
  shows "relay_on k (relay_loop now tr st) = relay_value now (timestamp tr) c"
proof -
  from assms have "map_of (relayConfig tr) k = Some c" by simp
  then show ?thesis
    using map_of_fold_obj_set[OF assms(1), of "relay_value now (timestamp tr)" st k] assms(3)
    by (simp add: relay_on_def relay_loop_def)
qed

lemma map_of_fold_obj_set_proto:
  "map_of (fold (\<lambda>(k, c). obj_set k (f c)) cfg st) ''__proto__'' = map_of st ''__proto__''"
  by (induction cfg arbitrary: st) (auto simp add: map_of_obj_set)

lemma relay_loop_proto: "\<not> relay_on ''__proto__'' (relay_loop now tr all_off)"
  by (simp add: relay_on_def relay_loop_def map_of_fold_obj_set_proto all_off_def)

lemma relay_value_iff:
  "relay_value now started c \<longleftrightarrow>
     enabled c \<and> delayMs c \<le> of_int (now - started) \<and>
     of_int (now - started) < rnd (delayMs c + onTimeMs c) \<and>
     (0 < pulseMs c \<longrightarrow>
        frem (rnd (of_int (now - started) - delayMs c)) (of_int (2 * pulseMs c))
          < of_int (pulseMs c))"
  by (auto simp add: relay_value_def Let_def mult.commute)

lemma exact_sums:
  assumes "exact_durations started c"
  shows "rnd (delayMs c + onTimeMs c) = delayMs c + onTimeMs c"
    and "rnd (rnd (of_int started + delayMs c) + onTimeMs c) =
           of_int started + delayMs c + onTimeMs c"
proof -
  let ?d = "delayMs c" and ?o = "onTimeMs c"
  from assms have d: "of_int \<lfloor>?d\<rfloor> = ?d" and o: "of_int \<lfloor>?o\<rfloor> = ?o"
    and b: "\<bar>rat_of_int started\<bar> + \<bar>?d\<bar> + \<bar>?o\<bar> < 2 ^ 53"
    by (simp_all add: exact_durations_def)
  have i1: "of_int \<lfloor>?d + ?o\<rfloor> = ?d + ?o"
    by (metis d o of_int_add floor_of_int)
  have i2: "of_int \<lfloor>rat_of_int started + ?d\<rfloor> = rat_of_int started + ?d"
    by (metis d of_int_add floor_of_int)
  have i3: "of_int \<lfloor>rat_of_int started + ?d + ?o\<rfloor> = rat_of_int started + ?d + ?o"
    by (metis d o of_int_add floor_of_int)
  have b1: "\<bar>?d + ?o\<bar> < 2 ^ 53" using b by linarith
  have b2: "\<bar>rat_of_int started + ?d\<bar> < 2 ^ 53" using b by linarith
  have b3: "\<bar>rat_of_int started + ?d + ?o\<bar> < 2 ^ 53" using b by linarith
  show "rnd (?d + ?o) = ?d + ?o" by (rule rnd_exact[OF i1 b1])
  have "rnd (rat_of_int started + ?d) = rat_of_int started + ?d" by (rule rnd_exact[OF i2 b2])
  then show "rnd (rnd (of_int started + ?d) + ?o) = of_int started + ?d + ?o"
    using rnd_exact[OF i3 b3] by simp
qed

lemma relay_value_exact:
  assumes "exact_durations started c"
  shows "relay_value now started c \<longleftrightarrow>
     enabled c \<and> delayMs c \<le> of_int (now - started) \<and>
     of_int (now - started) < delayMs c + onTimeMs c \<and>
     (0 < pulseMs c \<longrightarrow> (now - started - \<lfloor>delayMs c\<rfloor>) mod (2 * pulseMs c) < pulseMs c)"
proof -
  let ?d = "delayMs c" and ?o = "onTimeMs c" and ?e = "now - started"
  from assms have d: "of_int \<lfloor>?d\<rfloor> = ?d" and o: "of_int \<lfloor>?o\<rfloor> = ?o"
    and b: "\<bar>rat_of_int started\<bar> + \<bar>?d\<bar> + \<bar>?o\<bar> < 2 ^ 53"
    by (simp_all add: exact_durations_def)
  have pulse: "frem (rnd (of_int ?e - ?d)) (of_int (2 * pulseMs c)) < of_int (pulseMs c) \<longleftrightarrow>
      (?e - \<lfloor>?d\<rfloor>) mod (2 * pulseMs c) < pulseMs c"
    if w: "?d \<le> of_int ?e" "of_int ?e < ?d + ?o" and p: "0 < pulseMs c"
  proof -
    have t: "rat_of_int ?e - ?d = of_int (?e - \<lfloor>?d\<rfloor>)"
      by (simp only: of_int_diff d)
    have nonneg: "0 \<le> ?e - \<lfloor>?d\<rfloor>"
      using w(1) t by (metis diff_ge_0_iff_ge of_int_0_le_iff)
    have "\<bar>rat_of_int (?e - \<lfloor>?d\<rfloor>)\<bar> < 2 ^ 53"
      using w b unfolding t[symmetric] by linarith
    then have "\<bar>?e - \<lfloor>?d\<rfloor>\<bar> < 2 ^ 53"
      by (metis of_int_abs of_int_less_numeral_power_cancel_iff)
    from rnd_of_int[OF this] have r: "rnd (of_int ?e - ?d) = of_int (?e - \<lfloor>?d\<rfloor>)"
      by (simp only: t)
    have "frem (of_int (?e - \<lfloor>?d\<rfloor>)) (of_int (2 * pulseMs c)) =
        rat_of_int ((?e - \<lfloor>?d\<rfloor>) mod (2 * pulseMs c))"
      by (rule frem_of_int[OF nonneg]) (use p in simp)
    then show ?thesis
      unfolding r by (simp only: of_int_less_iff)
  qed
  show ?thesis
    unfolding relay_value_iff exact_sums(1)[OF assms] using pulse by blast
qed

lemma relay_on_all_off: "\<not> relay_on k all_off"
  by (simp add: relay_on_def all_off_def)

lemma finished_iff:
  "allEnabledTriggerRelaysFinished now tr \<longleftrightarrow>
     (\<forall>(k, c) \<in> set (relayConfig tr).
         enabled c \<longrightarrow>
         rnd (rnd (of_int (timestamp tr) + delayMs c) + onTimeMs c) \<le> of_int now)"
  by (auto simp add: allEnabledTriggerRelaysFinished_def list_all_iff)

lemma finished_exact:
  assumes "\<forall>(k, c) \<in> set (relayConfig tr). enabled c \<longrightarrow> exact_durations (timestamp tr) c"
  shows "allEnabledTriggerRelaysFinished now tr \<longleftrightarrow>
     (\<forall>(k, c) \<in> set (relayConfig tr).
         enabled c \<longrightarrow> of_int (timestamp tr) + delayMs c + onTimeMs c \<le> of_int now)"
  unfolding finished_iff using assms exact_sums(2) by fastforce

lemma finished_relay_value:
  assumes "allEnabledTriggerRelaysFinished now tr" and "(k, c) \<in> set (relayConfig tr)"
    and "exact_durations (timestamp tr) c"
  shows "\<not> relay_value now (timestamp tr) c"
proof
  assume v: "relay_value now (timestamp tr) c"
  then have en: "enabled c"
    and w: "of_int (now - timestamp tr) < delayMs c + onTimeMs c"
    by (simp_all add: relay_value_exact[OF assms(3)])
  from assms(1,2) en have "rnd (rnd (of_int (timestamp tr) + delayMs c) + onTimeMs c) \<le> of_int now"
    by (auto simp add: finished_iff)
  then have "of_int (timestamp tr) + delayMs c + onTimeMs c \<le> rat_of_int now"
    by (simp only: exact_sums(2)[OF assms(3)])
  with w show False by simp
qed

lemma publish_settings:
  "snd (publish st ta s) = s\<lparr>currentRelayStates := st, triggerActive := ta\<rparr>"
  by (simp add: publish_def Let_def)

lemma publish_effects:
  "fst (publish st ta s) =
     (if st \<noteq> currentRelayStates s \<or> ta \<noteq> triggerActive s \<or> test_pending (testRelay s) then
        (if activeTrigger s = None \<and> \<not> ta \<and> falsy_id (tr_id (testRelay s))
         then [SaveSettings] else []) @ [BroadcastSettings]
      else [])"
  by (simp add: publish_def Let_def)

lemma manage_interval_settings: "settings (snd (manage_interval sv)) = settings sv"
  by (simp add: manage_interval_def Let_def)

lemma calc_unfold:
  assumes "main_trigger now (alarmEnabled (settings sv)) (activeTrigger (settings sv)) = (st1, ta1, trig1)"
    and "test_override now (testRelay (settings sv)) trig1 st1 ta1 = (st2, ta2, test2, eff2)"
  shows "calculateAndBroadcastRelayStates now sv =
     (eff2 @ fst (publish st2 ta2 ((settings sv)\<lparr>activeTrigger := trig1, testRelay := test2\<rparr>))
        @ fst (manage_interval (sv\<lparr>settings :=
             (settings sv)\<lparr>activeTrigger := trig1, testRelay := test2,
                            currentRelayStates := st2, triggerActive := ta2\<rparr>\<rparr>)),
      snd (manage_interval (sv\<lparr>settings :=
             (settings sv)\<lparr>activeTrigger := trig1, testRelay := test2,
                            currentRelayStates := st2, triggerActive := ta2\<rparr>\<rparr>)))"
  using assms
  by (simp add: calculateAndBroadcastRelayStates_def Let_def split_beta publish_settings)

lemma calc_settings:
  assumes "main_trigger now (alarmEnabled (settings sv)) (activeTrigger (settings sv)) = (st1, ta1, trig1)"
    and "test_override now (testRelay (settings sv)) trig1 st1 ta1 = (st2, ta2, test2, eff2)"
  shows "settings (snd (calculateAndBroadcastRelayStates now sv)) =
           (settings sv)\<lparr>activeTrigger := trig1, testRelay := test2,
                          currentRelayStates := st2, triggerActive := ta2\<rparr>"
  by (simp add: calc_unfold[OF assms] manage_interval_settings)

lemma test_override_in_flight:
  "tr_id t = Some i \<Longrightarrow> 0 < tr_onTimeMs t \<Longrightarrow> now - tr_timestamp t < tr_onTimeMs t \<Longrightarrow>
   test_override now t trig st ta = (obj_set (String i) (test_value now t) st, True, t, [])"
  by (simp add: test_override_def Let_def)

lemma test_override_finished:
  "tr_id t = Some i \<Longrightarrow> 0 < tr_onTimeMs t \<Longrightarrow> \<not> now - tr_timestamp t < tr_onTimeMs t \<Longrightarrow>
   test_override now t trig st ta =
     ((if trig = None then obj_set (String i) False st else st), ta, no_test, [SaveSettings])"
  by (simp add: test_override_def Let_def)

lemma main_trigger_cases:
  "main_trigger now ae trig =
     (if ae \<and> trig \<noteq> None \<and> \<not> allEnabledTriggerRelaysFinished now (the trig)
      then (relay_loop now (the trig) all_off, True, trig)
      else (all_off, False, if ae then None else trig))"
  by (auto simp add: main_trigger_def split: option.splits)

lemma test_override_cases:
  "test_override now t trig st ta =
     (if test_in_flight now t then (obj_set (String (the (tr_id t))) (test_value now t) st, True, t, [])
      else if test_pending t then
        ((if trig = None then obj_set (String (the (tr_id t))) False st else st), ta, no_test, [SaveSettings])
      else (st, ta, t, []))"
  by (auto simp add: test_override_def test_in_flight_def test_pending_def Let_def split: option.splits)

lemma after_activeTrigger:
  "activeTrigger (settings_after now sv) =
     snd (snd (main_trigger now (alarmEnabled (settings sv)) (activeTrigger (settings sv))))"
proof -
  obtain st1 ta1 trig1 where M: "main_trigger now (alarmEnabled (settings sv)) (activeTrigger (settings sv)) = (st1, ta1, trig1)"
    by (rule prod_cases3)
  obtain st2 ta2 test2 eff2 where T: "test_override now (testRelay (settings sv)) trig1 st1 ta1 = (st2, ta2, test2, eff2)"
    by (rule prod_cases4)
  show ?thesis by (simp add: calc_settings[OF M T] M)
qed

lemma after_test:
  "main_trigger now (alarmEnabled (settings sv)) (activeTrigger (settings sv)) = (st1, ta1, trig1) \<Longrightarrow>
   testRelay (settings_after now sv) = fst (snd (snd (test_override now (testRelay (settings sv)) trig1 st1 ta1))) \<and>
   currentRelayStates (settings_after now sv) = fst (test_override now (testRelay (settings sv)) trig1 st1 ta1) \<and>
   triggerActive (settings_after now sv) = fst (snd (test_override now (testRelay (settings sv)) trig1 st1 ta1)) \<and>
   alarmEnabled (settings_after now sv) = alarmEnabled (settings sv) \<and>
   relays (settings_after now sv) = relays (settings sv)"
proof -
  assume M: "main_trigger now (alarmEnabled (settings sv)) (activeTrigger (settings sv)) = (st1, ta1, trig1)"
  obtain st2 ta2 test2 eff2 where T: "test_override now (testRelay (settings sv)) trig1 st1 ta1 = (st2, ta2, test2, eff2)"
    by (rule prod_cases4)
  show ?thesis by (simp add: calc_settings[OF M T] T)
qed

lemma after_fields:
  fixes now sv
  defines "M \<equiv> main_trigger now (alarmEnabled (settings sv)) (activeTrigger (settings sv))"
  defines "T \<equiv> test_override now (testRelay (settings sv)) (snd (snd M)) (fst M) (fst (snd M))"
  shows "activeTrigger (settings_after now sv) = snd (snd M)"
    and "testRelay (settings_after now sv) = fst (snd (snd T))"
    and "currentRelayStates (settings_after now sv) = fst T"
    and "triggerActive (settings_after now sv) = fst (snd T)"
    and "alarmEnabled (settings_after now sv) = alarmEnabled (settings sv)"
    and "relays (settings_after now sv) = relays (settings sv)"
proof -
  have M: "main_trigger now (alarmEnabled (settings sv)) (activeTrigger (settings sv)) =
             (fst M, fst (snd M), snd (snd M))"
    by (simp add: M_def)
  show "activeTrigger (settings_after now sv) = snd (snd M)"
    by (simp add: after_activeTrigger M_def)
  show "testRelay (settings_after now sv) = fst (snd (snd T))"
    and "currentRelayStates (settings_after now sv) = fst T"
    and "triggerActive (settings_after now sv) = fst (snd T)"
    and "alarmEnabled (settings_after now sv) = alarmEnabled (settings sv)"
    and "relays (settings_after now sv) = relays (settings sv)"
    using after_test[OF M] by (simp_all add: T_def)
qed

lemma String_digits:
  "String 1 = ''1''" "String 2 = ''2''" "String 3 = ''3''" "String 4 = ''4''"
  by (simp_all add: String_def decimal.simps digit_char_def)

lemma map_of_all_off:
  "map_of all_off k = (if k \<in> set [''1'', ''2'', ''3'', ''4''] then Some False else None)"
  by (simp add: all_off_def)

lemma test_value_iff:
  "test_value now t \<longleftrightarrow>
     (0 < tr_pulseMs t \<longrightarrow> js_rem (now - tr_timestamp t) (2 * tr_pulseMs t) < tr_pulseMs t)"
  by (simp add: test_value_def Let_def mult.commute)

lemma calc_snd:
  "snd (calculateAndBroadcastRelayStates now sv) =
     snd (manage_interval (sv\<lparr>settings := settings_after now sv\<rparr>))"
proof -
  obtain st1 ta1 trig1 where M: "main_trigger now (alarmEnabled (settings sv)) (activeTrigger (settings sv)) = (st1, ta1, trig1)"
    by (rule prod_cases3)
  obtain st2 ta2 test2 eff2 where T: "test_override now (testRelay (settings sv)) trig1 st1 ta1 = (st2, ta2, test2, eff2)"
    by (rule prod_cases4)
  show ?thesis
    by (simp add: calc_unfold[OF M T] manage_interval_settings)
qed

lemma effects_of_eq:
  "effects_of now sv =
     (if test_pending (testRelay (settings sv)) \<and> \<not> test_in_flight now (testRelay (settings sv))
      then [SaveSettings] else []) @
     (if currentRelayStates (settings_after now sv) \<noteq> currentRelayStates (settings sv) \<or>
         triggerActive (settings_after now sv) \<noteq> triggerActive (settings sv) \<or>
         test_pending (testRelay (settings_after now sv))
      then (if activeTrigger (settings_after now sv) = None \<and>
               \<not> triggerActive (settings_after now sv) \<and>
               falsy_id (tr_id (testRelay (settings_after now sv)))
            then [SaveSettings] else []) @ [BroadcastSettings]
      else []) @
     fst (manage_interval (sv\<lparr>settings := settings_after now sv\<rparr>))"
proof -
  obtain st1 ta1 trig1 where M: "main_trigger now (alarmEnabled (settings sv)) (activeTrigger (settings sv)) = (st1, ta1, trig1)"
    by (rule prod_cases3)
  obtain st2 ta2 test2 eff2 where T: "test_override now (testRelay (settings sv)) trig1 st1 ta1 = (st2, ta2, test2, eff2)"
    by (rule prod_cases4)
  have eff2: "eff2 = (if test_pending (testRelay (settings sv)) \<and> \<not> test_in_flight now (testRelay (settings sv))
      then [SaveSettings] else [])"
    using T by (auto simp add: test_override_cases test_in_flight_def split: if_splits)
  have S: "settings_after now sv = (settings sv)\<lparr>activeTrigger := trig1, testRelay := test2,
                          currentRelayStates := st2, triggerActive := ta2\<rparr>"
    by (rule calc_settings[OF M T])
  show ?thesis
    unfolding S by (simp add: calc_unfold[OF M T] publish_effects eff2)
qed

lemma manage_interval_cases:
  "manage_interval sv =
     (if activeTrigger (settings sv) = None \<and> tr_id (testRelay (settings sv)) = None then
        (case intervalId sv of
           None \<Rightarrow> ([], sv)
         | Some h \<Rightarrow> ([ClearInterval h], sv\<lparr>timers := removeAll h (timers sv), intervalId := None\<rparr>))
      else
        (case intervalId sv of
           None \<Rightarrow> ([SetInterval (timers_made sv) 100],
                     sv\<lparr>intervalId := Some (timers_made sv), timers := timers_made sv # timers sv,
                        timers_made := Suc (timers_made sv)\<rparr>)
         | Some h \<Rightarrow> ([], sv)))"
  by (auto simp add: manage_interval_def Let_def split: option.splits)

lemma main_trigger_idem:
  "main_trigger now ae (snd (snd (main_trigger now ae trig))) = main_trigger now ae trig"
  by (cases trig) (simp_all add: main_trigger_def)

lemma main_trigger_None_off:
  "snd (snd (main_trigger now ae trig)) = None \<Longrightarrow> fst (main_trigger now ae trig) = all_off"
  by (cases trig) (simp_all add: main_trigger_def split: if_splits)

lemma obj_set_all_off:
  "i \<in> {1, 2, 3, 4} \<Longrightarrow> obj_set (String i) False all_off = all_off"
  by (rule obj_set_same) (auto simp add: String_digits map_of_all_off)

lemma test_pending_no_test: "\<not> test_pending no_test"
  by (simp add: test_pending_def no_test_def)

lemma settings_after_idem:
  assumes "test_id_valid (testRelay (settings sv))"
  shows "settings_after now (server_after now sv) = settings_after now sv"
proof -
  let ?s = "settings sv"
  let ?t = "testRelay ?s"
  obtain st1 ta1 trig1 where M: "main_trigger now (alarmEnabled ?s) (activeTrigger ?s) = (st1, ta1, trig1)"
    by (rule prod_cases3)
  obtain st2 ta2 test2 eff2 where T: "test_override now ?t trig1 st1 ta1 = (st2, ta2, test2, eff2)"
    by (rule prod_cases4)
  have S1: "settings_after now sv =
      ?s\<lparr>activeTrigger := trig1, testRelay := test2, currentRelayStates := st2, triggerActive := ta2\<rparr>"
    by (rule calc_settings[OF M T])
  let ?sv1 = "server_after now sv"
  have M': "main_trigger now (alarmEnabled (settings ?sv1)) (activeTrigger (settings ?sv1)) = (st1, ta1, trig1)"
    using main_trigger_idem[of now "alarmEnabled ?s" "activeTrigger ?s"] by (simp add: S1 M)
  have off: "trig1 = None \<Longrightarrow> st1 = all_off"
    using main_trigger_None_off[of now "alarmEnabled ?s" "activeTrigger ?s"] by (simp add: M)
  have T': "test_override now (testRelay (settings ?sv1)) trig1 st1 ta1 = (st2, ta2, test2, [])"
  proof (cases "test_in_flight now ?t")
    case True
    with T show ?thesis by (auto simp add: S1 test_override_cases)
  next
    case False
    show ?thesis
    proof (cases "test_pending ?t")
      case True
      then obtain i where i: "tr_id ?t = Some i" by (auto simp add: test_pending_def)
      with assms have "i \<in> {1, 2, 3, 4}" by (simp add: test_id_valid_def)
      then have "trig1 = None \<Longrightarrow> obj_set (String i) False st1 = st1"
        using off by (simp add: obj_set_all_off)
      with T True False i show ?thesis
        by (auto simp add: S1 test_override_cases test_pending_no_test test_in_flight_def)
    next
      case False
      with T show ?thesis by (auto simp add: S1 test_override_cases test_in_flight_def)
    qed
  qed
  show ?thesis
    by (simp add: calc_settings[OF M' T'] S1)
qed

lemma test_after_pending:
  "test_pending (testRelay (settings_after now sv)) = test_in_flight now (testRelay (settings sv))"
  by (simp add: after_fields test_override_cases test_pending_no_test test_in_flight_def)

lemma test_in_flight_active:
  "test_in_flight now (testRelay (settings sv)) \<Longrightarrow> triggerActive (settings_after now sv)"
  by (simp add: after_fields test_override_cases)

lemma test_after_in_flight:
  "test_in_flight now (testRelay (settings_after now sv)) = test_in_flight now (testRelay (settings sv))"
  by (auto simp add: after_fields test_override_cases test_pending_no_test test_in_flight_def)

lemma manage_interval_effects:
  "SaveSettings \<notin> set (fst (manage_interval sv))"
  "BroadcastSettings \<notin> set (fst (manage_interval sv))"
  by (simp_all add: manage_interval_def Let_def)

lemma num_in_iff: "num_in lo hi x \<longleftrightarrow> (\<exists>n. x = JNum n \<and> lo \<le> n \<and> n \<le> hi)"
  by (cases x) simp_all

lemma is_bool_iff: "is_bool x \<longleftrightarrow> (\<exists>b. x = JBool b)"
  by (cases x) simp_all

lemma validate_relay_in_bounds:
  "relay_in_bounds relay \<Longrightarrow> validate_relay ident relay = Inr (config_of relay)"
  by (auto simp add: relay_in_bounds_def num_in_iff is_bool_iff validate_relay_def config_of_def)

lemma validate_relay_out_of_bounds:
  "\<not> relay_in_bounds relay \<Longrightarrow> \<exists>e. validate_relay ident relay = Inl e"
  by (auto simp add: relay_in_bounds_def validate_relay_def split: json.splits)

lemma validate_relay_TypeError:
  "validate_relay ident relay = Inl TypeError \<Longrightarrow> relay = JNull \<or> relay = JUndefined"
  by (auto simp add: validate_relay_def split: json.splits if_splits)

lemma validate_relays_in_bounds:
  "list_all (\<lambda>(k, relay). relay_in_bounds relay) props \<Longrightarrow>
   validate_relays props = Inr (map (\<lambda>(k, relay). (k, config_of relay)) props)"
  by (induction props) (auto simp add: validate_relay_in_bounds)

lemma validate_relays_out_of_bounds:
  "\<not> list_all (\<lambda>(k, relay). relay_in_bounds relay) props \<Longrightarrow>
   \<exists>e. validate_relays props = Inl e"
proof (induction props)
  case Nil
  then show ?case by simp
next
  case (Cons x props)
  obtain k relay where x: "x = (k, relay)" by (cases x)
  show ?case
  proof (cases "relay_in_bounds relay")
    case True
    with Cons show ?thesis
      by (auto simp add: x validate_relay_in_bounds split: sum.splits)
  next
    case False
    from validate_relay_out_of_bounds[OF False, of k] show ?thesis
      by (auto simp add: x)
  qed
qed

lemma validate_relays_TypeError:
  "validate_relays props = Inl TypeError \<Longrightarrow>
   \<exists>(k, relay) \<in> set props. relay = JNull \<or> relay = JUndefined"
proof (induction props)
  case Nil
  then show ?case by simp
next
  case (Cons x props)
  obtain k relay where x: "x = (k, relay)" by (cases x)
  from Cons show ?case
    by (auto simp add: x split: sum.splits dest: validate_relay_TypeError)
qed

lemma post_settings_rejected:
  assumes "\<not> (is_bool alarm_field \<and> four_relays_in_bounds relays_field)"
  shows "\<exists>e. post_settings alarm_field relays_field now sv = (Rejected e, [], sv)"
proof (cases "is_bool alarm_field")
  case False
  then show ?thesis
    by (cases alarm_field) (simp_all add: post_settings_def)
next
  case True
  then obtain b where b: "alarm_field = JBool b" by (auto simp add: is_bool_iff)
  from True assms have bad: "\<not> four_relays_in_bounds relays_field" by simp
  show ?thesis
  proof (cases "typeof relays_field = ''object''")
    case False
    then show ?thesis by (simp add: post_settings_def b)
  next
    case obj: True
    show ?thesis
    proof (cases "own_props relays_field")
      case None
      with obj show ?thesis by (simp add: post_settings_def b)
    next
      case (Some props)
      show ?thesis
      proof (cases "length props = 4")
        case False
        with obj Some show ?thesis by (simp add: post_settings_def b)
      next
        case True
        with bad obj Some have "\<not> list_all (\<lambda>(k, relay). relay_in_bounds relay) props"
          by (simp add: four_relays_in_bounds_def)
        from validate_relays_out_of_bounds[OF this] obtain e where "validate_relays props = Inl e" ..
        with obj Some True show ?thesis by (simp add: post_settings_def b)
      qed
    qed
  qed
qed

lemma post_settings_accepted:
  assumes "is_bool alarm_field" and "four_relays_in_bounds relays_field"
  shows "post_settings alarm_field relays_field now sv =
     (Success,
      SaveSettings # effects_of now
        (sv\<lparr>settings := (settings sv)\<lparr>alarmEnabled := bool_of alarm_field,
                                       relays := configs_of relays_field\<rparr>\<rparr>),
      server_after now
        (sv\<lparr>settings := (settings sv)\<lparr>alarmEnabled := bool_of alarm_field,
                                       relays := configs_of relays_field\<rparr>\<rparr>))"
proof -
  from assms(1) obtain b where b: "alarm_field = JBool b" by (auto simp add: is_bool_iff)
  from assms(2) obtain props where obj: "typeof relays_field = ''object''"
    and props: "own_props relays_field = Some props" and len: "length props = 4"
    and ok: "list_all (\<lambda>(k, relay). relay_in_bounds relay) props"
    by (auto simp add: four_relays_in_bounds_def split: option.splits)
  show ?thesis
    by (simp add: post_settings_def b obj props len validate_relays_in_bounds[OF ok]
        configs_of_def split_beta Let_def)
qed

lemma post_settings_TypeError:
  assumes "fst (post_settings alarm_field relays_field now sv) = Rejected TypeError"
  shows "relays_field = JNull \<or>
         (\<exists>props. own_props relays_field = Some props \<and>
            (\<exists>(k, relay) \<in> set props. relay = JNull \<or> relay = JUndefined))"
proof -
  from assms obtain b where b: "alarm_field = JBool b"
    by (cases alarm_field) (simp_all add: post_settings_def)
  from assms have obj: "typeof relays_field = ''object''"
    by (auto simp add: post_settings_def b split: if_splits)
  show ?thesis
  proof (cases "own_props relays_field")
    case None
    with obj show ?thesis by (cases relays_field) simp_all
  next
    case (Some props)
    with assms obj have "validate_relays props = Inl TypeError"
      by (auto simp add: post_settings_def b split_beta Let_def split: if_splits sum.splits)
    from validate_relays_TypeError[OF this] Some show ?thesis by simp
  qed
qed

lemma deep_copy_id: "deep_copy m = m"
  by (induction m) (auto simp add: deep_copy_def)

lemma settings_after_relays:
  "settings_after now (sv\<lparr>settings := s\<lparr>relays := R\<rparr>\<rparr>) =
     (settings_after now (sv\<lparr>settings := s\<rparr>))\<lparr>relays := R\<rparr>"
proof -
  obtain st1 ta1 trig1 where M: "main_trigger now (alarmEnabled s) (activeTrigger s) = (st1, ta1, trig1)"
    by (rule prod_cases3)
  obtain st2 ta2 test2 eff2 where T: "test_override now (testRelay s) trig1 st1 ta1 = (st2, ta2, test2, eff2)"
    by (rule prod_cases4)
  have a: "settings_after now (sv\<lparr>settings := s\<lparr>relays := R\<rparr>\<rparr>) =
      (s\<lparr>relays := R\<rparr>)\<lparr>activeTrigger := trig1, testRelay := test2,
                         currentRelayStates := st2, triggerActive := ta2\<rparr>"
    using calc_settings[of now "sv\<lparr>settings := s\<lparr>relays := R\<rparr>\<rparr>" st1 ta1 trig1 st2 ta2 test2 eff2] M T
    by simp
  have b: "settings_after now (sv\<lparr>settings := s\<rparr>) =
      s\<lparr>activeTrigger := trig1, testRelay := test2,
        currentRelayStates := st2, triggerActive := ta2\<rparr>"
    using calc_settings[of now "sv\<lparr>settings := s\<rparr>" st1 ta1 trig1 st2 ta2 test2 eff2] M T
    by simp
  show ?thesis unfolding a b by simp
qed

lemma after_trigger_eq:
  "activeTrigger (settings sv) = Some tr \<Longrightarrow>
   activeTrigger (settings_after now sv) =
     (if alarmEnabled (settings sv) \<and> allEnabledTriggerRelaysFinished now tr then None else Some tr)"
  by (simp add: after_fields main_trigger_def)

lemma webhook_order_enabled:
  "alarmEnabled (settings sv) \<Longrightarrow>
   webhook_order started now sv =
     (Success,
      effects_of now (sv\<lparr>settings := (settings sv)\<lparr>activeTrigger :=
         Some \<lparr>source = Order, timestamp = started, relayConfig = relays (settings sv)\<rparr>\<rparr>\<rparr>),
      server_after now (sv\<lparr>settings := (settings sv)\<lparr>activeTrigger :=
         Some \<lparr>source = Order, timestamp = started, relayConfig = relays (settings sv)\<rparr>\<rparr>\<rparr>))"
  by (simp add: webhook_order_def Let_def split_beta deep_copy_id)

lemma parseInt_digits:
  "parseInt ''1'' = 1" "parseInt ''2'' = 2" "parseInt ''3'' = 3" "parseInt ''4'' = 4"
  by (simp_all add: parseInt_def)

lemma relay_id_roundtrip:
  "relayId \<in> set [''1'', ''2'', ''3'', ''4''] \<Longrightarrow>
   String (parseInt relayId) = relayId \<and> parseInt relayId \<in> {1, 2, 3, 4}"
  by (auto simp add: parseInt_digits String_digits)

lemma test_relay_command_enabled:
  assumes "relayId \<in> set [''1'', ''2'', ''3'', ''4'']"
    and "map_of (relays (settings sv)) relayId = Some c" and "enabled c"
  shows "test_relay_command relayId started now sv =
     (Success,
      effects_of now (sv\<lparr>settings := (settings sv)\<lparr>testRelay :=
         \<lparr>tr_id = Some (parseInt relayId), tr_onTimeMs = 500,
          tr_pulseMs = pulseMs c, tr_timestamp = started\<rparr>\<rparr>\<rparr>),
      server_after now (sv\<lparr>settings := (settings sv)\<lparr>testRelay :=
         \<lparr>tr_id = Some (parseInt relayId), tr_onTimeMs = 500,
          tr_pulseMs = pulseMs c, tr_timestamp = started\<rparr>\<rparr>\<rparr>))"
  using assms by (simp add: test_relay_command_def Let_def split_beta)

text \<open>
  The sums met at the instant 1700000000000 with a delay of \<open>2^-14\<close> or \<open>2^-60\<close> ms and 100 ms
  on: \<open>100 + 2^-14\<close> is a binary64 number, \<open>1700000000000 + 2^-14\<close> rounds to 1700000000000
  and \<open>100 + 2^-60\<close> rounds to 100.
\<close>

lemma rnd_fraction_window: "rnd (1638401 / 16384) = 1638401 / 16384"
  by code_simp

lemma rnd_fraction_start: "rnd (27852800000000001 / 16384) = 1700000000000"
  by code_simp

lemma rnd_fraction_absorbed: "rnd (115292150460684697601 / 1152921504606846976) = 100"
  by code_simp
section \<open>The claims\<close>

subsection \<open>C1: the state of each relay under the main trigger\<close>

text \<open>
  Claim C1, amended. Take a trigger, the alarm enabled, and a relay of the snapshot whose
  id is not \<open>__proto__\<close>. The loop over the snapshot computes the relay on exactly when it
  is enabled, the time elapsed since the start of the trigger is at least \<open>delayMs\<close> and
  below the binary64 sum of \<open>delayMs\<close> and \<open>onTimeMs\<close> and, for a pulse length \<open>p > 0\<close>, the
  binary64 difference of the elapsed time and \<open>delayMs\<close>, modulo \<open>2p\<close>, is below \<open>p\<close>. The
  result of the whole block is that of the loop unless the trigger has finished by the
  test of the block, and then every relay is off. When the durations of the relay are
  integers and, with the start of the trigger, stay below \<open>2^53\<close>, the result of the block
  is on exactly when the relay is enabled, the elapsed time lies in
  \<open>[delayMs, delayMs + onTimeMs)\<close> and, for a pulse length \<open>p > 0\<close>, the time spent in the
  window, modulo \<open>2p\<close>, is below \<open>p\<close>. So a disabled relay is off whatever the time.
  Nothing is stored for a relay with the id \<open>__proto__\<close>. Without a trigger, or with the
  alarm disabled, every relay is off.
\<close>

theorem main_trigger_relay_state:
  "(distinct (map fst (relayConfig tr)) \<and> (k, c) \<in> set (relayConfig tr) \<and> k \<noteq> ''__proto__'' \<longrightarrow>
      (relay_on k (relay_loop now tr all_off) \<longleftrightarrow>
         enabled c \<and> delayMs c \<le> of_int (now - timestamp tr) \<and>
         of_int (now - timestamp tr) < rnd (delayMs c + onTimeMs c) \<and>
         (0 < pulseMs c \<longrightarrow>
            frem (rnd (of_int (now - timestamp tr) - delayMs c)) (of_int (2 * pulseMs c))
              < of_int (pulseMs c))) \<and>
      (relay_on k (fst (main_trigger now True (Some tr))) \<longleftrightarrow>
         \<not> allEnabledTriggerRelaysFinished now tr \<and> relay_on k (relay_loop now tr all_off)) \<and>
      (exact_durations (timestamp tr) c \<longrightarrow>
         (relay_on k (fst (main_trigger now True (Some tr))) \<longleftrightarrow>
            enabled c \<and> delayMs c \<le> of_int (now - timestamp tr) \<and>
            of_int (now - timestamp tr) < delayMs c + onTimeMs c \<and>
            (0 < pulseMs c \<longrightarrow>
               (now - timestamp tr - \<lfloor>delayMs c\<rfloor>) mod (2 * pulseMs c) < pulseMs c))) \<and>
      (\<not> enabled c \<longrightarrow> \<not> relay_on k (fst (main_trigger now True (Some tr))))) \<and>
   \<not> relay_on ''__proto__'' (fst (main_trigger now alarm_on trig)) \<and>
   \<not> relay_on k (fst (main_trigger now alarm_on None)) \<and>
   \<not> relay_on k (fst (main_trigger now False trig))"
proof -
  have idle: "\<not> relay_on k (fst (main_trigger now alarm_on None))"
    by (simp add: main_trigger_def relay_on_all_off)
  have off: "\<not> relay_on k (fst (main_trigger now False trig))"
    by (simp add: main_trigger_cases relay_on_all_off)
  have proto: "\<not> relay_on ''__proto__'' (fst (main_trigger now alarm_on trig))"
    by (simp add: main_trigger_def relay_on_all_off relay_loop_proto split: option.splits)
  have block: "relay_on k (fst (main_trigger now True (Some tr))) \<longleftrightarrow>
      \<not> allEnabledTriggerRelaysFinished now tr \<and> relay_on k (relay_loop now tr all_off)"
    by (simp add: main_trigger_def relay_on_all_off)
  {
    assume d: "distinct (map fst (relayConfig tr))" and m: "(k, c) \<in> set (relayConfig tr)"
      and np: "k \<noteq> ''__proto__''"
    have loop: "relay_on k (relay_loop now tr all_off) = relay_value now (timestamp tr) c"
      by (rule relay_on_relay_loop[OF d m np])
    have exact: "relay_on k (fst (main_trigger now True (Some tr))) = relay_value now (timestamp tr) c"
      if ex: "exact_durations (timestamp tr) c"
    proof (cases "allEnabledTriggerRelaysFinished now tr")
      case True
      then show ?thesis
        using finished_relay_value[OF True m ex] by (simp add: block)
    next
      case False
      then show ?thesis by (simp add: block loop)
    qed
    have dis: "\<not> relay_on k (fst (main_trigger now True (Some tr)))" if "\<not> enabled c"
      using that by (simp add: block loop relay_value_iff)
    have "relay_on k (relay_loop now tr all_off) \<longleftrightarrow>
         enabled c \<and> delayMs c \<le> of_int (now - timestamp tr) \<and>
         of_int (now - timestamp tr) < rnd (delayMs c + onTimeMs c) \<and>
         (0 < pulseMs c \<longrightarrow>
            frem (rnd (of_int (now - timestamp tr) - delayMs c)) (of_int (2 * pulseMs c))
              < of_int (pulseMs c))"
      unfolding loop by (rule relay_value_iff)
    moreover have "exact_durations (timestamp tr) c \<longrightarrow>
         (relay_on k (fst (main_trigger now True (Some tr))) \<longleftrightarrow>
            enabled c \<and> delayMs c \<le> of_int (now - timestamp tr) \<and>
            of_int (now - timestamp tr) < delayMs c + onTimeMs c \<and>
            (0 < pulseMs c \<longrightarrow>
               (now - timestamp tr - \<lfloor>delayMs c\<rfloor>) mod (2 * pulseMs c) < pulseMs c))"
      using exact relay_value_exact[of "timestamp tr" c now] by blast
    moreover note dis
    ultimately have
      "(relay_on k (relay_loop now tr all_off) \<longleftrightarrow>
         enabled c \<and> delayMs c \<le> of_int (now - timestamp tr) \<and>
         of_int (now - timestamp tr) < rnd (delayMs c + onTimeMs c) \<and>
         (0 < pulseMs c \<longrightarrow>
            frem (rnd (of_int (now - timestamp tr) - delayMs c)) (of_int (2 * pulseMs c))
              < of_int (pulseMs c))) \<and>
      (exact_durations (timestamp tr) c \<longrightarrow>
         (relay_on k (fst (main_trigger now True (Some tr))) \<longleftrightarrow>
            enabled c \<and> delayMs c \<le> of_int (now - timestamp tr) \<and>
            of_int (now - timestamp tr) < delayMs c + onTimeMs c \<and>
            (0 < pulseMs c \<longrightarrow>
               (now - timestamp tr - \<lfloor>delayMs c\<rfloor>) mod (2 * pulseMs c) < pulseMs c))) \<and>
      (\<not> enabled c \<longrightarrow> \<not> relay_on k (fst (main_trigger now True (Some tr))))"
      by blast
  }
  then show ?thesis using idle off proto block by blast
qed

theorem main_trigger_relay_state_witness:
  "distinct (map fst (relayConfig trigger_B)) \<and> (''2'', relay2_B) \<in> set (relayConfig trigger_B) \<and>
   exact_durations (timestamp trigger_B) relay2_B \<and>
   relay_on ''2'' (fst (main_trigger 1050 True (Some trigger_B))) \<and>
   \<not> relay_on ''2'' (fst (main_trigger 1250 True (Some trigger_B))) \<and>
   relay_on ''2'' (fst (main_trigger 1450 True (Some trigger_B))) \<and>
   \<not> relay_on ''2'' (fst (main_trigger 3000 True (Some trigger_B)))"
proof -
  have d: "distinct (map fst (relayConfig trigger_B))"
    and m: "(''2'', relay2_B) \<in> set (relayConfig trigger_B)"
    and ts: "timestamp trigger_B = 0"
    by (simp_all add: trigger_B_def pulse_relays_def)
  have np: "''2'' \<noteq> ''__proto__''" by simp
  have ex: "exact_durations (timestamp trigger_B) relay2_B"
    by (simp add: ts relay2_B_def exact_durations_def)
  have r: "relay_on ''2'' (fst (main_trigger now True (Some trigger_B))) \<longleftrightarrow>
      enabled relay2_B \<and> delayMs relay2_B \<le> of_int (now - timestamp trigger_B) \<and>
      of_int (now - timestamp trigger_B) < delayMs relay2_B + onTimeMs relay2_B \<and>
      (0 < pulseMs relay2_B \<longrightarrow>
         (now - timestamp trigger_B - \<lfloor>delayMs relay2_B\<rfloor>) mod (2 * pulseMs relay2_B)
           < pulseMs relay2_B)" for now
    using main_trigger_relay_state[of trigger_B "''2''" relay2_B now] d m np ex by blast
  show ?thesis
    using d m ex by (simp add: r ts relay2_B_def)
qed

text \<open>
  The claim as stated fails for a delay with a fractional part. Relay 1 of the trigger of
  the instant 1700000000000 is enabled, with a delay of \<open>2^-14\<close> ms, 100 ms on and no
  pulse. At the evaluation 100 ms after the start the elapsed time lies in
  \<open>[delayMs, delayMs + onTimeMs)\<close> and the loop computes the relay on, but the sum of the
  start and the delay rounds to the start, the test of the end of the trigger holds, and
  the block returns the relay off. With a delay of \<open>2^-60\<close> ms instead, the elapsed time
  lies in that interval as well, but the sum of the delay and the 100 ms rounds to 100
  and the loop itself computes the relay off. And the relay with the id \<open>__proto__\<close> of
  the trigger of time 0 is enabled, with no delay, 5000 ms on and no pulse: at time 100
  the trigger has not finished and the elapsed time lies in the window, but the
  assignment stores nothing and the relay is not on.
\<close>

theorem main_trigger_fraction_counterexample:
  "(''1'', relay1_F) \<in> set (relayConfig trigger_F) \<and>
   enabled relay1_F \<and> pulseMs relay1_F = 0 \<and>
   delayMs relay1_F \<le> of_int (1700000000100 - timestamp trigger_F) \<and>
   of_int (1700000000100 - timestamp trigger_F) < delayMs relay1_F + onTimeMs relay1_F \<and>
   relay_on ''1'' (relay_loop 1700000000100 trigger_F all_off) \<and>
   allEnabledTriggerRelaysFinished 1700000000100 trigger_F \<and>
   \<not> relay_on ''1'' (fst (main_trigger 1700000000100 True (Some trigger_F))) \<and>
   (''1'', relay1_G) \<in> set (relayConfig trigger_G) \<and>
   enabled relay1_G \<and> pulseMs relay1_G = 0 \<and>
   delayMs relay1_G \<le> of_int (1700000000100 - timestamp trigger_G) \<and>
   of_int (1700000000100 - timestamp trigger_G) < delayMs relay1_G + onTimeMs relay1_G \<and>
   \<not> relay_on ''1'' (relay_loop 1700000000100 trigger_G all_off) \<and>
   \<not> relay_on ''1'' (fst (main_trigger 1700000000100 True (Some trigger_G))) \<and>
   (''__proto__'', relay_P) \<in> set (relayConfig trigger_P) \<and>
   enabled relay_P \<and> pulseMs relay_P = 0 \<and>
   delayMs relay_P \<le> of_int (100 - timestamp trigger_P) \<and>
   of_int (100 - timestamp trigger_P) < delayMs relay_P + onTimeMs relay_P \<and>
   \<not> allEnabledTriggerRelaysFinished 100 trigger_P \<and>
   \<not> relay_on ''__proto__'' (relay_loop 100 trigger_P all_off) \<and>
   \<not> relay_on ''__proto__'' (fst (main_trigger 100 True (Some trigger_P)))"
  by (simp add: trigger_F_def trigger_G_def fraction_relays_def relay1_F_def relay1_G_def
      trigger_P_def proto_relays_def relay_P_def
      main_trigger_def allEnabledTriggerRelaysFinished_def relay_loop_def relay_value_def
      relay_on_obj_set relay_on_all_off rnd_fraction_start rnd_fraction_window
      rnd_fraction_absorbed)

subsection \<open>C2: the life of the active trigger\<close>

text \<open>
  Claim C2, amended. In a state with a trigger and the alarm enabled, an evaluation clears
  the trigger exactly when, for every enabled relay of its snapshot, the binary64 sum
  \<open>(startedAt + delayMs) + onTimeMs\<close> is at most \<open>now\<close> (a disabled relay never keeps it
  alive); when the durations of the enabled relays are integers and, with the start of
  the trigger, stay below \<open>2^53\<close>, this is exactly when
  \<open>startedAt + delayMs + onTimeMs \<le> now\<close> for every enabled relay. A trigger that is not
  cleared is kept as it is. At the clearing evaluation the main trigger block turns every
  relay off and reports no active trigger; after it only a test in flight can turn its
  own relay on, and \<open>triggerActive\<close> is true exactly when a test is in flight. With the
  alarm disabled the trigger is kept, whatever the time.
\<close>

theorem trigger_cleared_iff:
  assumes "activeTrigger (settings sv) = Some tr"
  shows "(alarmEnabled (settings sv) \<longrightarrow>
           (activeTrigger (settings_after now sv) = None \<longleftrightarrow>
              (\<forall>(k, c) \<in> set (relayConfig tr).
                  enabled c \<longrightarrow>
                  rnd (rnd (of_int (timestamp tr) + delayMs c) + onTimeMs c) \<le> of_int now)) \<and>
           ((\<forall>(k, c) \<in> set (relayConfig tr).
                enabled c \<longrightarrow> exact_durations (timestamp tr) c) \<longrightarrow>
              (activeTrigger (settings_after now sv) = None \<longleftrightarrow>
                 (\<forall>(k, c) \<in> set (relayConfig tr).
                     enabled c \<longrightarrow>
                     of_int (timestamp tr) + delayMs c + onTimeMs c \<le> of_int now))) \<and>
           (activeTrigger (settings_after now sv) \<noteq> None \<longrightarrow>
              activeTrigger (settings_after now sv) = Some tr) \<and>
           (activeTrigger (settings_after now sv) = None \<longrightarrow>
              main_trigger now True (Some tr) = (all_off, False, None) \<and>
              (triggerActive (settings_after now sv) \<longleftrightarrow>
                 test_in_flight now (testRelay (settings sv))) \<and>
              (\<forall>k. relay_on k (currentRelayStates (settings_after now sv)) \<longrightarrow>
                   test_in_flight now (testRelay (settings sv)) \<and>
                   map_option String (tr_id (testRelay (settings sv))) = Some k))) \<and>
         (\<not> alarmEnabled (settings sv) \<longrightarrow>
            activeTrigger (settings_after now sv) = Some tr)"
proof (cases "alarmEnabled (settings sv)")
  case False
  with assms show ?thesis by (simp add: after_trigger_eq)
next
  case en: True
  have ex: "allEnabledTriggerRelaysFinished now tr \<longleftrightarrow>
      (\<forall>(k, c) \<in> set (relayConfig tr).
          enabled c \<longrightarrow> of_int (timestamp tr) + delayMs c + onTimeMs c \<le> of_int now)"
    if "\<forall>(k, c) \<in> set (relayConfig tr). enabled c \<longrightarrow> exact_durations (timestamp tr) c"
    by (rule finished_exact[OF that])
  show ?thesis
  proof (cases "allEnabledTriggerRelaysFinished now tr")
    case True
    have M: "main_trigger now (alarmEnabled (settings sv)) (activeTrigger (settings sv)) =
               (all_off, False, None)"
      using assms en True by (simp add: main_trigger_def)
    have cleared: "activeTrigger (settings_after now sv) = None"
      by (simp add: after_activeTrigger M)
    have ta: "triggerActive (settings_after now sv) \<longleftrightarrow> test_in_flight now (testRelay (settings sv))"
      using after_test[OF M] by (simp add: test_override_cases)
    have on: "relay_on k (currentRelayStates (settings_after now sv)) \<Longrightarrow>
                test_in_flight now (testRelay (settings sv)) \<and>
                map_option String (tr_id (testRelay (settings sv))) = Some k" for k
      using after_test[OF M]
      by (auto simp add: test_override_cases relay_on_obj_set relay_on_all_off
          test_in_flight_def test_pending_def split: if_splits)
    from True have fin: "\<forall>(k, c) \<in> set (relayConfig tr).
        enabled c \<longrightarrow> rnd (rnd (of_int (timestamp tr) + delayMs c) + onTimeMs c) \<le> of_int now"
      by (simp add: finished_iff)
    have M': "main_trigger now True (Some tr) = (all_off, False, None)"
      using M assms en by simp
    have c1: "activeTrigger (settings_after now sv) = None \<longleftrightarrow>
        (\<forall>(k, c) \<in> set (relayConfig tr).
            enabled c \<longrightarrow>
            rnd (rnd (of_int (timestamp tr) + delayMs c) + onTimeMs c) \<le> of_int now)"
      using cleared fin by blast
    have c2: "(\<forall>(k, c) \<in> set (relayConfig tr).
                enabled c \<longrightarrow> exact_durations (timestamp tr) c) \<longrightarrow>
        (activeTrigger (settings_after now sv) = None \<longleftrightarrow>
           (\<forall>(k, c) \<in> set (relayConfig tr).
               enabled c \<longrightarrow>
               of_int (timestamp tr) + delayMs c + onTimeMs c \<le> of_int now))"
      using cleared True ex by blast
    have c3: "activeTrigger (settings_after now sv) \<noteq> None \<longrightarrow>
        activeTrigger (settings_after now sv) = Some tr"
      using cleared by simp
    have c4: "activeTrigger (settings_after now sv) = None \<longrightarrow>
        main_trigger now True (Some tr) = (all_off, False, None) \<and>
        (triggerActive (settings_after now sv) \<longleftrightarrow>
           test_in_flight now (testRelay (settings sv))) \<and>
        (\<forall>k. relay_on k (currentRelayStates (settings_after now sv)) \<longrightarrow>
             test_in_flight now (testRelay (settings sv)) \<and>
             map_option String (tr_id (testRelay (settings sv))) = Some k)"
      using M' ta on by blast
    show ?thesis
      using c1 c2 c3 c4 en by blast
  next
    case False
    have M: "main_trigger now (alarmEnabled (settings sv)) (activeTrigger (settings sv)) =
               (relay_loop now tr all_off, True, Some tr)"
      using assms en False by (simp add: main_trigger_def)
    have kept: "activeTrigger (settings_after now sv) = Some tr"
      by (simp add: after_activeTrigger M)
    from False have c1: "\<not> (\<forall>(k, c) \<in> set (relayConfig tr).
        enabled c \<longrightarrow> rnd (rnd (of_int (timestamp tr) + delayMs c) + onTimeMs c) \<le> of_int now)"
      by (simp add: finished_iff)
    have c2: "(\<forall>(k, c) \<in> set (relayConfig tr).
                enabled c \<longrightarrow> exact_durations (timestamp tr) c) \<longrightarrow>
        \<not> (\<forall>(k, c) \<in> set (relayConfig tr).
               enabled c \<longrightarrow>
               of_int (timestamp tr) + delayMs c + onTimeMs c \<le> of_int now)"
      using False ex by blast
    show ?thesis using kept en c1 c2 by simp
  qed
qed

theorem trigger_cleared_iff_witness:
  "activeTrigger (settings (running triggered_settings)) = Some trigger_A \<and>
   alarmEnabled (settings (running triggered_settings)) \<and>
   list_all (\<lambda>(k, c). exact_durations (timestamp trigger_A) c) (relayConfig trigger_A) \<and>
   activeTrigger (settings_after 7999 (running triggered_settings)) = Some trigger_A \<and>
   activeTrigger (settings_after 8000 (running triggered_settings)) = None \<and>
   \<not> triggerActive (settings_after 8000 (running triggered_settings)) \<and>
   \<not> relay_on ''1'' (currentRelayStates (settings_after 8000 (running triggered_settings))) \<and>
   activeTrigger (settings (running disabled_settings)) = Some trigger_A \<and>
   \<not> alarmEnabled (settings (running disabled_settings)) \<and>
   activeTrigger (settings_after 8000 (running disabled_settings)) = Some trigger_A"
proof -
  have a: "activeTrigger (settings (running triggered_settings)) = Some trigger_A"
    and en: "alarmEnabled (settings (running triggered_settings))"
    and t: "testRelay (settings (running triggered_settings)) = no_test"
    and b: "activeTrigger (settings (running disabled_settings)) = Some trigger_A"
    and dis: "\<not> alarmEnabled (settings (running disabled_settings))"
    by (simp_all add: running_def triggered_settings_def disabled_settings_def idle_settings_def)
  have ex: "\<forall>(k, c) \<in> set (relayConfig trigger_A).
      enabled c \<longrightarrow> exact_durations (timestamp trigger_A) c"
    by (simp add: trigger_A_def default_relays_def exact_durations_def)
  have sums: "(\<forall>(k, c) \<in> set (relayConfig trigger_A).
      enabled c \<longrightarrow> of_int (timestamp trigger_A) + delayMs c + onTimeMs c \<le> rat_of_int now)
      \<longleftrightarrow> 8000 \<le> now" for now
    by (auto simp add: trigger_A_def default_relays_def)
  have idle: "\<not> test_in_flight 8000 no_test"
    by (simp add: test_in_flight_def test_pending_def no_test_def)
  note early = trigger_cleared_iff[OF a, of 7999]
  note late = trigger_cleared_iff[OF a, of 8000]
  note quiet = trigger_cleared_iff[OF b, of 8000]
  have n: "\<not> 8000 \<le> (7999::int)" "8000 \<le> (8000::int)"
    by simp_all
  have c1: "activeTrigger (settings_after 7999 (running triggered_settings)) = Some trigger_A"
    using early en ex sums[of 7999] n(1) by blast
  have c2: "activeTrigger (settings_after 8000 (running triggered_settings)) = None"
    using late en ex sums[of 8000] n(2) by blast
  have c3: "\<not> triggerActive (settings_after 8000 (running triggered_settings))"
    using late en c2 idle unfolding t by blast
  have c4: "\<not> relay_on ''1'' (currentRelayStates (settings_after 8000 (running triggered_settings)))"
    using late en c2 idle unfolding t by blast
  have c5: "activeTrigger (settings_after 8000 (running disabled_settings)) = Some trigger_A"
    using quiet dis by blast
  have all: "list_all (\<lambda>(k, c). exact_durations (timestamp trigger_A) c) (relayConfig trigger_A)"
    by (simp add: trigger_A_def default_relays_def exact_durations_def)
  show ?thesis
    using a en all c1 c2 c3 c4 b dis c5 by (intro conjI)
qed

text \<open>
  The claim as stated fails in three ways. With the alarm disabled, the trigger of time 0,
  all of whose relays have ended by time 8000, is still there after the evaluation at
  time 10000. When that trigger is cleared by the evaluation at time 8000 while a test of
  relay 1 is in flight, relay 1 is on and \<open>triggerActive\<close> is true afterwards. And the
  trigger of the instant 1700000000000 whose relay 1 has a delay of \<open>2^-14\<close> ms and 100 ms
  on is cleared by the evaluation 100 ms after its start, before
  \<open>startedAt + delayMs + onTimeMs\<close>, because the sum of the start and the delay rounds to
  the start.
\<close>

theorem trigger_not_cleared_counterexample:
  "allEnabledTriggerRelaysFinished 10000 trigger_A \<and>
   activeTrigger (settings (running disabled_settings)) = Some trigger_A \<and>
   activeTrigger (settings_after 10000 (running disabled_settings)) = Some trigger_A \<and>
   activeTrigger (settings (running overlap_settings)) = Some trigger_A \<and>
   activeTrigger (settings_after 8000 (running overlap_settings)) = None \<and>
   relay_on ''1'' (currentRelayStates (settings_after 8000 (running overlap_settings))) \<and>
   triggerActive (settings_after 8000 (running overlap_settings)) \<and>
   activeTrigger (settings (running fraction_settings)) = Some trigger_F \<and>
   alarmEnabled (settings (running fraction_settings)) \<and>
   (''1'', relay1_F) \<in> set (relayConfig trigger_F) \<and> enabled relay1_F \<and>
   \<not> of_int (timestamp trigger_F) + delayMs relay1_F + onTimeMs relay1_F
       \<le> rat_of_int 1700000000100 \<and>
   activeTrigger (settings_after 1700000000100 (running fraction_settings)) = None"
  by (simp add: after_fields main_trigger_def test_override_def test_value_def Let_def
      allEnabledTriggerRelaysFinished_def relay_on_obj_set
      running_def disabled_settings_def overlap_settings_def idle_settings_def
      trigger_A_def default_relays_def test1_def String_digits
      fraction_settings_def trigger_F_def fraction_relays_def relay1_F_def no_test_def
      rnd_fraction_start)

subsection \<open>C3: the gate before saving and broadcasting\<close>

text \<open>
  Claim C3, amended. An evaluation broadcasts exactly when the relay states or
  \<open>triggerActive\<close> that it computes differ from the stored ones, or a test is in flight.
  It saves exactly when a test ends at this evaluation, or it broadcasts and is left with
  no trigger, \<open>triggerActive\<close> false and no test id. When the id of the test, if there is one,
  is one of the four relays, evaluating again at the same instant leaves the settings as
  they are and saves nothing, and it broadcasts again exactly when a test is in flight.
\<close>

theorem broadcast_gate:
  "(BroadcastSettings \<in> set (effects_of now sv) \<longleftrightarrow>
      currentRelayStates (settings_after now sv) \<noteq> currentRelayStates (settings sv) \<or>
      triggerActive (settings_after now sv) \<noteq> triggerActive (settings sv) \<or>
      test_in_flight now (testRelay (settings sv))) \<and>
   (SaveSettings \<in> set (effects_of now sv) \<longleftrightarrow>
      (test_pending (testRelay (settings sv)) \<and> \<not> test_in_flight now (testRelay (settings sv))) \<or>
      (BroadcastSettings \<in> set (effects_of now sv) \<and>
       activeTrigger (settings_after now sv) = None \<and>
       \<not> triggerActive (settings_after now sv) \<and>
       falsy_id (tr_id (testRelay (settings_after now sv))))) \<and>
   (test_id_valid (testRelay (settings sv)) \<longrightarrow>
      settings_after now (server_after now sv) = settings_after now sv \<and>
      SaveSettings \<notin> set (effects_of now (server_after now sv)) \<and>
      (BroadcastSettings \<in> set (effects_of now (server_after now sv)) \<longleftrightarrow>
         test_in_flight now (testRelay (settings sv))))"
proof -
  have gate: "BroadcastSettings \<in> set (effects_of now sv) \<longleftrightarrow>
      currentRelayStates (settings_after now sv) \<noteq> currentRelayStates (settings sv) \<or>
      triggerActive (settings_after now sv) \<noteq> triggerActive (settings sv) \<or>
      test_in_flight now (testRelay (settings sv))" for sv
    by (simp add: effects_of_eq manage_interval_effects test_after_pending)
  have save: "SaveSettings \<in> set (effects_of now sv) \<longleftrightarrow>
      (test_pending (testRelay (settings sv)) \<and> \<not> test_in_flight now (testRelay (settings sv))) \<or>
      (BroadcastSettings \<in> set (effects_of now sv) \<and>
       activeTrigger (settings_after now sv) = None \<and>
       \<not> triggerActive (settings_after now sv) \<and>
       falsy_id (tr_id (testRelay (settings_after now sv))))" for sv
    unfolding gate by (simp add: effects_of_eq manage_interval_effects test_after_pending)
  {
    assume valid: "test_id_valid (testRelay (settings sv))"
    let ?sv1 = "server_after now sv"
    have idem: "settings_after now ?sv1 = settings_after now sv"
      by (rule settings_after_idem[OF valid])
    have again: "BroadcastSettings \<in> set (effects_of now ?sv1) \<longleftrightarrow>
        test_in_flight now (testRelay (settings sv))"
      unfolding gate[of ?sv1] idem by (simp add: test_after_in_flight)
    have "\<not> (test_pending (testRelay (settings ?sv1)) \<and> \<not> test_in_flight now (testRelay (settings ?sv1)))"
      by (simp add: test_after_pending test_after_in_flight)
    moreover have "BroadcastSettings \<in> set (effects_of now ?sv1) \<Longrightarrow> triggerActive (settings_after now ?sv1)"
      unfolding again idem by (rule test_in_flight_active)
    ultimately have "SaveSettings \<notin> set (effects_of now ?sv1)"
      unfolding save[of ?sv1] by blast
    note idem this again
  }
  with gate[of sv] save[of sv] show ?thesis by blast
qed

theorem broadcast_gate_witness:
  "test_id_valid (testRelay (settings (running triggered_settings))) \<and>
   \<not> test_in_flight 100 (testRelay (settings (running triggered_settings))) \<and>
   BroadcastSettings \<in> set (effects_of 100 (running triggered_settings)) \<and>
   BroadcastSettings \<notin> set (effects_of 100
      (server_after 100 (running triggered_settings))) \<and>
   SaveSettings \<notin> set (effects_of 100
      (server_after 100 (running triggered_settings)))"
proof -
  let ?run = "running triggered_settings"
  have valid: "test_id_valid (testRelay (settings ?run))"
    and calm: "\<not> test_in_flight 100 (testRelay (settings ?run))"
    by (simp_all add: test_id_valid_def test_in_flight_def test_pending_def running_def
        triggered_settings_def idle_settings_def no_test_def)
  have "triggerActive (settings_after 100 ?run)" "\<not> triggerActive (settings ?run)"
    by (simp_all add: after_fields main_trigger_def allEnabledTriggerRelaysFinished_def
        test_override_def running_def triggered_settings_def idle_settings_def trigger_A_def
        default_relays_def no_test_def)
  with broadcast_gate[of 100 ?run] valid calm show ?thesis by simp
qed

text \<open>
  The claim as stated fails in three ways. With a test of relay 3 in flight, a second
  evaluation at the same instant 5000, with the settings unchanged, broadcasts again. A
  trigger all of whose relays are disabled is cleared by the evaluation, which has no
  effect at all: the end of the trigger is not broadcast. And the evaluation at time 100
  of the trigger of time 0 turns relay 1 on and broadcasts, but does not save.
\<close>

theorem broadcast_gate_counterexample:
  "test_in_flight 5000 (testRelay (settings (running testing_settings))) \<and>
   settings_after 5000 (server_after 5000 (running testing_settings)) =
     settings_after 5000 (running testing_settings) \<and>
   BroadcastSettings \<in> set (effects_of 5000 (server_after 5000 (running testing_settings))) \<and>
   activeTrigger (settings (idle_server\<lparr>settings := off_settings\<rparr>))
     = Some trigger_off \<and>
   activeTrigger (settings_after 0 (idle_server\<lparr>settings := off_settings\<rparr>))
     = None \<and>
   effects_of 0 (idle_server\<lparr>settings := off_settings\<rparr>) = [] \<and>
   currentRelayStates (settings (running triggered_settings)) = all_off \<and>
   currentRelayStates (settings_after 100 (running triggered_settings))
     = [(''1'', True), (''2'', False), (''3'', False), (''4'', False)] \<and>
   effects_of 100 (running triggered_settings) = [BroadcastSettings]"
proof -
  have a: "test_in_flight 5000 (testRelay (settings (running testing_settings)))"
    by (simp add: test_in_flight_def test_pending_def running_def testing_settings_def
        idle_settings_def test3_pulse_def)
  have v: "test_id_valid (testRelay (settings (running testing_settings)))"
    by (simp add: test_id_valid_def running_def testing_settings_def idle_settings_def
        test3_pulse_def)
  have b: "settings_after 5000 (server_after 5000 (running testing_settings)) =
     settings_after 5000 (running testing_settings)"
    by (rule settings_after_idem[OF v])
  have c: "BroadcastSettings \<in> set (effects_of 5000 (server_after 5000 (running testing_settings)))"
    using a by (simp add: effects_of_eq test_after_pending test_after_in_flight)
  let ?off = "idle_server\<lparr>settings := off_settings\<rparr>"
  have d: "activeTrigger (settings ?off) = Some trigger_off"
    by (simp add: off_settings_def)
  have e: "settings_after 0 ?off = idle_settings\<lparr>relays := off_relays\<rparr>"
    by (simp add: calculateAndBroadcastRelayStates_def main_trigger_def
        allEnabledTriggerRelaysFinished_def test_override_def publish_def manage_interval_def
        test_pending_def Let_def idle_server_def off_settings_def idle_settings_def
        trigger_off_def off_relays_def no_test_def)
  have f: "effects_of 0 ?off = []"
    unfolding effects_of_eq e
    by (simp add: manage_interval_def test_pending_def Let_def idle_server_def off_settings_def
        idle_settings_def no_test_def test_in_flight_def)
  let ?run = "running triggered_settings"
  have g: "currentRelayStates (settings ?run) = all_off"
    by (simp add: running_def triggered_settings_def idle_settings_def)
  have h: "settings_after 100 ?run =
      idle_settings\<lparr>activeTrigger := Some trigger_A,
        currentRelayStates := [(''1'', True), (''2'', False), (''3'', False), (''4'', False)],
        triggerActive := True\<rparr>"
    by (simp add: calculateAndBroadcastRelayStates_def main_trigger_def
        allEnabledTriggerRelaysFinished_def test_override_def publish_def manage_interval_def
        test_pending_def Let_def running_def triggered_settings_def idle_settings_def
        trigger_A_def default_relays_def no_test_def relay_loop_def relay_value_def
        obj_set_def all_off_def)
  have i: "effects_of 100 ?run = [BroadcastSettings]"
    unfolding effects_of_eq h
    by (simp add: manage_interval_def test_pending_def Let_def running_def
        triggered_settings_def idle_settings_def no_test_def test_in_flight_def all_off_def)
  have e': "activeTrigger (settings_after 0 ?off) = None"
    unfolding e by (simp add: idle_settings_def)
  have h': "currentRelayStates (settings_after 100 ?run) =
      [(''1'', True), (''2'', False), (''3'', False), (''4'', False)]"
    unfolding h by simp
  from a b c d e' f g h' i show ?thesis by simp
qed

subsection \<open>C4: validation of a configuration update\<close>

text \<open>
  What the handler does with a request. It rejects, with no effect and the server left
  as it was, whenever \<open>alarmEnabled\<close> is not a boolean, \<open>relays\<close> is not an object with
  exactly four entries, or an entry violates the bounds; an update that does not succeed
  has no effect; and an update that succeeds saves and replaces \<open>alarmEnabled\<close> and the
  relay configuration by those of the request. Nothing here reads the ids of the relays.
\<close>

lemma post_settings_outcome:
  "(\<not> is_bool alarm_field \<or> \<not> four_relays_in_bounds relays_field \<longrightarrow>
      (\<exists>e. post_settings alarm_field relays_field now sv = (Rejected e, [], sv))) \<and>
   (fst (post_settings alarm_field relays_field now sv) \<noteq> Success \<longrightarrow>
      (\<exists>e. post_settings alarm_field relays_field now sv = (Rejected e, [], sv))) \<and>
   (fst (post_settings alarm_field relays_field now sv) = Rejected TypeError \<longrightarrow>
      relays_field = JNull \<or>
      (\<exists>props. own_props relays_field = Some props \<and>
         (\<exists>(k, relay) \<in> set props. relay = JNull \<or> relay = JUndefined))) \<and>
   (fst (post_settings alarm_field relays_field now sv) = Success \<longrightarrow>
      SaveSettings \<in> set (fst (snd (post_settings alarm_field relays_field now sv))) \<and>
      alarmEnabled (settings (snd (snd (post_settings alarm_field relays_field now sv))))
        = bool_of alarm_field \<and>
      relays (settings (snd (snd (post_settings alarm_field relays_field now sv))))
        = configs_of relays_field)"
proof (cases "is_bool alarm_field \<and> four_relays_in_bounds relays_field")
  case True
  then have "fst (post_settings alarm_field relays_field now sv) = Success \<and>
      SaveSettings \<in> set (fst (snd (post_settings alarm_field relays_field now sv))) \<and>
      alarmEnabled (settings (snd (snd (post_settings alarm_field relays_field now sv))))
        = bool_of alarm_field \<and>
      relays (settings (snd (snd (post_settings alarm_field relays_field now sv))))
        = configs_of relays_field"
    by (simp add: post_settings_accepted after_fields)
  with True show ?thesis by simp
next
  case False
  from post_settings_rejected[OF False] obtain e
    where e: "post_settings alarm_field relays_field now sv = (Rejected e, [], sv)" ..
  from e False post_settings_TypeError[of alarm_field relays_field now sv]
  show ?thesis by auto
qed

text \<open>
  Claim C4. The claim has the update rejected, and the state left as it was, whenever the
  relay map is not exactly the relays 1 to 4. The handler counts the entries of the map
  and never reads their ids: the request for the relays 5, 6, 7 and 8, each within the
  bounds, succeeds, is saved and becomes the configuration. The test command checks the
  id against the relays 1 to 4 and then reads the configuration of that relay without a
  guard, so after this update it throws for each of the four relays.
\<close>

theorem post_settings_ids_accepted:
  "own_props other_ids =
     Some [(''5'', relay_json), (''6'', relay_json), (''7'', relay_json), (''8'', relay_json)] \<and>
   fst (post_settings (JBool True) other_ids 0 idle_server) = Success \<and>
   SaveSettings \<in> set (fst (snd (post_settings (JBool True) other_ids 0 idle_server))) \<and>
   map fst (relays (settings (snd (snd (post_settings (JBool True) other_ids 0 idle_server)))))
     = [''5'', ''6'', ''7'', ''8''] \<and>
   fst (test_relay_command ''1'' 1 1 (snd (snd (post_settings (JBool True) other_ids 0 idle_server))))
     = Rejected TypeError \<and>
   fst (test_relay_command ''2'' 1 1 (snd (snd (post_settings (JBool True) other_ids 0 idle_server))))
     = Rejected TypeError \<and>
   fst (test_relay_command ''3'' 1 1 (snd (snd (post_settings (JBool True) other_ids 0 idle_server))))
     = Rejected TypeError \<and>
   fst (test_relay_command ''4'' 1 1 (snd (snd (post_settings (JBool True) other_ids 0 idle_server))))
     = Rejected TypeError"
proof -
  have a: "is_bool (JBool True)" by simp
  have b: "four_relays_in_bounds other_ids"
    by (simp add: four_relays_in_bounds_def other_ids_def relay_in_bounds_def relay_json_def)
  define sv where "sv = snd (snd (post_settings (JBool True) other_ids 0 idle_server))"
  have ok: "fst (post_settings (JBool True) other_ids 0 idle_server) = Success"
    and saved: "SaveSettings \<in> set (fst (snd (post_settings (JBool True) other_ids 0 idle_server)))"
    by (simp_all add: post_settings_accepted[OF a b])
  have r: "relays (settings sv) = configs_of other_ids"
    unfolding sv_def by (simp add: post_settings_accepted[OF a b] after_fields)
  have keys: "map fst (relays (settings sv)) = [''5'', ''6'', ''7'', ''8'']"
    by (simp add: r configs_of_def other_ids_def)
  have none: "map_of (relays (settings sv)) k = None" if "k \<in> set [''1'', ''2'', ''3'', ''4'']" for k
    using that by (auto simp add: r configs_of_def other_ids_def)
  have t: "fst (test_relay_command k 1 1 sv) = Rejected TypeError"
    if "k \<in> set [''1'', ''2'', ''3'', ''4'']" for k
    using that none[OF that] by (simp add: test_relay_command_def)
  have props: "own_props other_ids =
     Some [(''5'', relay_json), (''6'', relay_json), (''7'', relay_json), (''8'', relay_json)]"
    by (simp add: other_ids_def)
  show ?thesis
    using props ok saved keys t[of "''1''"] t[of "''2''"] t[of "''3''"] t[of "''4''"]
    unfolding sv_def by simp
qed

subsection \<open>C5: the test override takes precedence\<close>

text \<open>
  Claim C5. While a test is in flight (its id is set, its duration is positive and the
  time elapsed since its own start is below the duration, 500 ms for every test that the
  test command creates), the state of its relay after the evaluation is given by the test
  alone: on when the pulse length is 0, and for a pulse length \<open>p > 0\<close> on exactly when the
  elapsed time, taken by the remainder operator modulo \<open>2p\<close>, is below \<open>p\<close>; from the
  start of the test on, this is the square wave \<open>elapsed mod 2p < p\<close>. Every other relay
  keeps the state computed by the main trigger block, \<open>triggerActive\<close> is true whether a
  trigger exists or not, and the test stays in the state.
\<close>

theorem test_override_precedence:
  assumes "tr_id (testRelay (settings sv)) = Some i"
    and "0 < tr_onTimeMs (testRelay (settings sv))"
    and "now - tr_timestamp (testRelay (settings sv)) < tr_onTimeMs (testRelay (settings sv))"
  shows "(relay_on (String i) (currentRelayStates (settings_after now sv)) \<longleftrightarrow>
            (0 < tr_pulseMs (testRelay (settings sv)) \<longrightarrow>
               js_rem (now - tr_timestamp (testRelay (settings sv)))
                      (2 * tr_pulseMs (testRelay (settings sv)))
                 < tr_pulseMs (testRelay (settings sv)))) \<and>
         (0 \<le> now - tr_timestamp (testRelay (settings sv)) \<longrightarrow>
            (relay_on (String i) (currentRelayStates (settings_after now sv)) \<longleftrightarrow>
               (0 < tr_pulseMs (testRelay (settings sv)) \<longrightarrow>
                  (now - tr_timestamp (testRelay (settings sv)))
                     mod (2 * tr_pulseMs (testRelay (settings sv)))
                    < tr_pulseMs (testRelay (settings sv))))) \<and>
         (\<forall>k. k \<noteq> String i \<longrightarrow>
            map_of (currentRelayStates (settings_after now sv)) k =
            map_of (fst (main_trigger now (alarmEnabled (settings sv))
                           (activeTrigger (settings sv)))) k) \<and>
         triggerActive (settings_after now sv) \<and>
         testRelay (settings_after now sv) = testRelay (settings sv)"
proof -
  let ?t = "testRelay (settings sv)"
  let ?M = "main_trigger now (alarmEnabled (settings sv)) (activeTrigger (settings sv))"
  have T: "test_override now ?t (snd (snd ?M)) (fst ?M) (fst (snd ?M)) =
             (obj_set (String i) (test_value now ?t) (fst ?M), True, ?t, [])"
    by (rule test_override_in_flight[OF assms])
  have st: "currentRelayStates (settings_after now sv) = obj_set (String i) (test_value now ?t) (fst ?M)"
    and ta: "triggerActive (settings_after now sv)"
    and te: "testRelay (settings_after now sv) = ?t"
    by (simp_all add: after_fields T)
  have on: "relay_on (String i) (currentRelayStates (settings_after now sv)) = test_value now ?t"
    by (simp add: st relay_on_obj_set)
  have others: "k \<noteq> String i \<Longrightarrow>
      map_of (currentRelayStates (settings_after now sv)) k = map_of (fst ?M) k" for k
    by (simp add: st map_of_obj_set)
  have wave: "0 \<le> now - tr_timestamp ?t \<Longrightarrow> 0 < tr_pulseMs ?t \<Longrightarrow>
      js_rem (now - tr_timestamp ?t) (2 * tr_pulseMs ?t) = (now - tr_timestamp ?t) mod (2 * tr_pulseMs ?t)"
    by (simp add: js_rem_nonneg)
  show ?thesis
    using ta te others wave unfolding on test_value_iff by auto
qed

theorem test_override_precedence_witness:
  "tr_id (testRelay (settings (running overlap_settings))) = Some 1 \<and>
   (0::int) < tr_onTimeMs (testRelay (settings (running overlap_settings))) \<and>
   7950 - tr_timestamp (testRelay (settings (running overlap_settings)))
      < tr_onTimeMs (testRelay (settings (running overlap_settings))) \<and>
   relay_on ''1'' (currentRelayStates (settings_after 7950 (running overlap_settings))) \<and>
   triggerActive (settings_after 7950 (running overlap_settings)) \<and>
   tr_id (testRelay (settings (running testing_settings))) = Some 3 \<and>
   \<not> relay_on ''3'' (currentRelayStates (settings_after 5050 (running testing_settings))) \<and>
   triggerActive (settings_after 5050 (running testing_settings))"
  using test_override_precedence[of "running overlap_settings" 1 7950]
    test_override_precedence[of "running testing_settings" 3 5050]
  by (simp add: running_def overlap_settings_def testing_settings_def idle_settings_def
      test1_def test3_pulse_def String_digits js_rem_def)

subsection \<open>C6: the end of the test override\<close>

text \<open>
  Claim C6. A test whose id is set and whose duration is positive (500 ms for every test
  that the test command creates) is cleared by an evaluation exactly when the time elapsed
  since its own start has reached the duration, whatever the trigger and the alarm switch
  are; otherwise it is kept as it is. At the clearing evaluation the state of its relay is
  the one computed by the main trigger block, so the relay is off unless the main trigger
  drives it on; in particular it is off when no trigger is left.
\<close>

theorem test_override_cleared_iff:
  assumes "tr_id (testRelay (settings sv)) = Some i"
    and "0 < tr_onTimeMs (testRelay (settings sv))"
  shows "(tr_id (testRelay (settings_after now sv)) = None \<longleftrightarrow>
            tr_onTimeMs (testRelay (settings sv)) \<le> now - tr_timestamp (testRelay (settings sv))) \<and>
         (tr_id (testRelay (settings_after now sv)) \<noteq> None \<longrightarrow>
            testRelay (settings_after now sv) = testRelay (settings sv)) \<and>
         (tr_id (testRelay (settings_after now sv)) = None \<longrightarrow>
            testRelay (settings_after now sv) = no_test \<and>
            (relay_on (String i) (currentRelayStates (settings_after now sv)) \<longleftrightarrow>
               relay_on (String i) (fst (main_trigger now (alarmEnabled (settings sv))
                                           (activeTrigger (settings sv))))) \<and>
            (activeTrigger (settings_after now sv) = None \<longrightarrow>
               \<not> relay_on (String i) (currentRelayStates (settings_after now sv))))"
proof (cases "now - tr_timestamp (testRelay (settings sv)) < tr_onTimeMs (testRelay (settings sv))")
  case True
  let ?t = "testRelay (settings sv)"
  let ?M = "main_trigger now (alarmEnabled (settings sv)) (activeTrigger (settings sv))"
  have T: "test_override now ?t (snd (snd ?M)) (fst ?M) (fst (snd ?M)) =
             (obj_set (String i) (test_value now ?t) (fst ?M), True, ?t, [])"
    by (rule test_override_in_flight[OF assms True])
  have "testRelay (settings_after now sv) = ?t"
    by (simp add: after_fields T)
  then show ?thesis using assms(1) True by simp
next
  case False
  let ?t = "testRelay (settings sv)"
  let ?M = "main_trigger now (alarmEnabled (settings sv)) (activeTrigger (settings sv))"
  have T: "test_override now ?t (snd (snd ?M)) (fst ?M) (fst (snd ?M)) =
             ((if snd (snd ?M) = None then obj_set (String i) False (fst ?M) else fst ?M),
              fst (snd ?M), no_test, [SaveSettings])"
    by (rule test_override_finished[OF assms False])
  have te: "testRelay (settings_after now sv) = no_test"
    and st: "currentRelayStates (settings_after now sv) =
               (if snd (snd ?M) = None then obj_set (String i) False (fst ?M) else fst ?M)"
    and tr: "activeTrigger (settings_after now sv) = snd (snd ?M)"
    by (simp_all add: after_fields T)
  have off: "snd (snd ?M) = None \<Longrightarrow> \<not> relay_on (String i) (fst ?M)"
    by (auto simp add: main_trigger_cases relay_on_all_off split: if_splits)
  have "relay_on (String i) (currentRelayStates (settings_after now sv)) = relay_on (String i) (fst ?M)"
    using off by (simp add: st relay_on_obj_set)
  moreover have "activeTrigger (settings_after now sv) = None \<Longrightarrow>
      \<not> relay_on (String i) (currentRelayStates (settings_after now sv))"
    using off by (simp add: st tr relay_on_obj_set)
  ultimately show ?thesis using te False by (simp add: no_test_def)
qed

theorem test_override_cleared_iff_witness:
  "tr_id (testRelay (settings (running testing_settings))) = Some 3 \<and>
   tr_onTimeMs (testRelay (settings (running testing_settings))) = 500 \<and>
   tr_timestamp (testRelay (settings (running testing_settings))) = 4900 \<and>
   testRelay (settings_after 5399 (running testing_settings)) = test3_pulse \<and>
   testRelay (settings_after 5400 (running testing_settings)) = no_test \<and>
   \<not> relay_on ''3'' (currentRelayStates (settings_after 5400 (running testing_settings)))"
  using test_override_cleared_iff[of "running testing_settings" 3 5399]
    test_override_cleared_iff[of "running testing_settings" 3 5400]
  by (auto simp add: running_def testing_settings_def idle_settings_def test3_pulse_def
      String_digits main_trigger_def relay_on_all_off)

subsection \<open>C7: the snapshot of a trigger\<close>

text \<open>
  Claim C7. With the alarm enabled, the order webhook stores a trigger whose snapshot is
  the relay configuration of that moment; after its evaluation the trigger is that one,
  unless all its enabled relays have ended at once. A successful configuration update
  leaves a trigger of the state either as it was, snapshot included, or cleared because
  the alarm is enabled and all its enabled relays have ended: the settings after the
  update are those of an update of \<open>alarmEnabled\<close> alone, with the new relay configuration
  put in. The new configuration is the snapshot of the next order.
\<close>

theorem snapshot_unchanged:
  "(alarmEnabled (settings sv) \<longrightarrow>
      fst (webhook_order started now sv) = Success \<and>
      activeTrigger (settings (snd (snd (webhook_order started now sv)))) =
        (if allEnabledTriggerRelaysFinished now
              \<lparr>source = Order, timestamp = started, relayConfig = relays (settings sv)\<rparr>
         then None
         else Some \<lparr>source = Order, timestamp = started, relayConfig = relays (settings sv)\<rparr>)) \<and>
   (fst (post_settings alarm_field relays_field now sv) = Success \<longrightarrow>
      settings (snd (snd (post_settings alarm_field relays_field now sv))) =
        (settings_after now (sv\<lparr>settings := (settings sv)\<lparr>alarmEnabled := bool_of alarm_field\<rparr>\<rparr>))
          \<lparr>relays := configs_of relays_field\<rparr> \<and>
      (\<forall>tr. activeTrigger (settings sv) = Some tr \<longrightarrow>
         activeTrigger (settings (snd (snd (post_settings alarm_field relays_field now sv)))) =
           (if bool_of alarm_field \<and> allEnabledTriggerRelaysFinished now tr then None else Some tr)) \<and>
      (bool_of alarm_field \<longrightarrow>
         activeTrigger (settings (snd (snd
            (webhook_order started' now'
               (snd (snd (post_settings alarm_field relays_field now sv))))))) =
           (if allEnabledTriggerRelaysFinished now'
                 \<lparr>source = Order, timestamp = started', relayConfig = configs_of relays_field\<rparr>
            then None
            else Some \<lparr>source = Order, timestamp = started',
                        relayConfig = configs_of relays_field\<rparr>)))"
proof -
  have order: "alarmEnabled (settings sv) \<Longrightarrow>
      fst (webhook_order started now sv) = Success \<and>
      activeTrigger (settings (snd (snd (webhook_order started now sv)))) =
        (if allEnabledTriggerRelaysFinished now
              \<lparr>source = Order, timestamp = started, relayConfig = relays (settings sv)\<rparr>
         then None
         else Some \<lparr>source = Order, timestamp = started, relayConfig = relays (settings sv)\<rparr>)"
    for sv started now
    by (simp add: webhook_order_enabled after_trigger_eq)
  {
    assume ok: "fst (post_settings alarm_field relays_field now sv) = Success"
    have "is_bool alarm_field \<and> four_relays_in_bounds relays_field"
    proof (rule ccontr)
      assume "\<not> (is_bool alarm_field \<and> four_relays_in_bounds relays_field)"
      from post_settings_rejected[OF this, of now sv] ok show False by auto
    qed
    then have acc: "is_bool alarm_field" "four_relays_in_bounds relays_field"
      by simp_all
    let ?post = "snd (snd (post_settings alarm_field relays_field now sv))"
    let ?s = "(settings sv)\<lparr>alarmEnabled := bool_of alarm_field\<rparr>"
    have "settings ?post = settings_after now (sv\<lparr>settings := ?s\<lparr>relays := configs_of relays_field\<rparr>\<rparr>)"
      by (simp add: post_settings_accepted[OF acc])
    then have frame: "settings ?post =
        (settings_after now (sv\<lparr>settings := ?s\<rparr>))\<lparr>relays := configs_of relays_field\<rparr>"
      by (simp only: settings_after_relays)
    have kept: "activeTrigger (settings sv) = Some tr \<Longrightarrow>
        activeTrigger (settings ?post) =
          (if bool_of alarm_field \<and> allEnabledTriggerRelaysFinished now tr then None else Some tr)" for tr
      unfolding frame by (simp add: after_trigger_eq)
    have en: "alarmEnabled (settings ?post) = bool_of alarm_field"
      and rel: "relays (settings ?post) = configs_of relays_field"
      unfolding frame by (simp_all add: after_fields)
    have "bool_of alarm_field \<Longrightarrow>
        activeTrigger (settings (snd (snd (webhook_order started' now' ?post)))) =
           (if allEnabledTriggerRelaysFinished now'
                 \<lparr>source = Order, timestamp = started', relayConfig = configs_of relays_field\<rparr>
            then None
            else Some \<lparr>source = Order, timestamp = started',
                        relayConfig = configs_of relays_field\<rparr>)"
      using order[of ?post started' now'] en rel by simp
    note frame kept this
  }
  with order[of sv started now] show ?thesis by blast
qed

theorem snapshot_unchanged_witness:
  "alarmEnabled (settings idle_server) \<and>
   activeTrigger (settings (snd (snd (webhook_order 0 0 idle_server)))) = Some trigger_A \<and>
   relayConfig trigger_A = relays (settings idle_server) \<and>
   activeTrigger (settings (running triggered_settings)) = Some trigger_A \<and>
   fst (post_settings (JBool True) valid_relays 100 (running triggered_settings)) = Success \<and>
   activeTrigger (settings (snd (snd
      (post_settings (JBool True) valid_relays 100 (running triggered_settings))))) = Some trigger_A \<and>
   relays (settings (snd (snd
      (post_settings (JBool True) valid_relays 100 (running triggered_settings))))) = configs_of valid_relays \<and>
   configs_of valid_relays \<noteq> relayConfig trigger_A"
proof -
  have en: "alarmEnabled (settings idle_server)"
    and rel: "relays (settings idle_server) = default_relays"
    and trig: "activeTrigger (settings (running triggered_settings)) = Some trigger_A"
    by (simp_all add: idle_server_def idle_settings_def running_def triggered_settings_def)
  have live: "\<not> allEnabledTriggerRelaysFinished 0 trigger_A"
    "\<not> allEnabledTriggerRelaysFinished 100 trigger_A"
    by (simp_all add: allEnabledTriggerRelaysFinished_def trigger_A_def default_relays_def)
  have b: "four_relays_in_bounds valid_relays"
    by (simp add: four_relays_in_bounds_def valid_relays_def relay_in_bounds_def relay_json_def)
  have ok: "fst (post_settings (JBool True) valid_relays 100 (running triggered_settings)) = Success"
    by (simp add: post_settings_accepted[OF _ b])
  have new: "configs_of valid_relays \<noteq> relayConfig trigger_A"
    by (simp add: configs_of_def valid_relays_def config_of_def relay_json_def trigger_A_def
        default_relays_def)
  have a: "activeTrigger (settings (snd (snd (webhook_order 0 0 idle_server)))) = Some trigger_A"
    using snapshot_unchanged[where sv = idle_server and started = 0 and now = 0] en live(1)
    by (simp add: rel trigger_A_def)
  note inst = snapshot_unchanged[where alarm_field = "JBool True" and relays_field = valid_relays
        and now = 100 and sv = "running triggered_settings" and started = 0
        and started' = 0 and now' = 0]
  from inst ok have "\<forall>tr. activeTrigger (settings (running triggered_settings)) = Some tr \<longrightarrow>
      activeTrigger (settings (snd (snd
        (post_settings (JBool True) valid_relays 100 (running triggered_settings))))) =
        (if bool_of (JBool True) \<and> allEnabledTriggerRelaysFinished 100 tr then None else Some tr)"
    by blast
  with trig live(2) have c: "activeTrigger (settings (snd (snd
      (post_settings (JBool True) valid_relays 100 (running triggered_settings))))) = Some trigger_A"
    by simp
  from inst ok have "settings (snd (snd
      (post_settings (JBool True) valid_relays 100 (running triggered_settings)))) =
      (settings_after 100 ((running triggered_settings)\<lparr>settings :=
          (settings (running triggered_settings))\<lparr>alarmEnabled := bool_of (JBool True)\<rparr>\<rparr>))
        \<lparr>relays := configs_of valid_relays\<rparr>"
    by blast
  then have d: "relays (settings (snd (snd
      (post_settings (JBool True) valid_relays 100 (running triggered_settings))))) = configs_of valid_relays"
    by simp
  from en a rel trig ok c d new show ?thesis by (simp add: trigger_A_def)
qed

subsection \<open>C8: the interval timer\<close>

text \<open>
  Claim C8. After every evaluation \<open>intervalId\<close> holds a timer exactly when the state holds
  a trigger or a test (a test id other than \<open>null\<close>). If the timers of the runtime were the
  one held by \<open>intervalId\<close>, they still are, so there is never more than one. When work
  remains and a timer is held, the evaluation keeps that timer and starts none; when no
  work remains and no timer is held, it leaves the timers alone and clears none; when no
  work remains, a held timer is cleared and removed. A timer is started only when none is
  held, with a period of 100 ms, and it becomes the one held.
\<close>

theorem interval_armed_iff:
  "(intervalId (server_after now sv) \<noteq> None \<longleftrightarrow>
      activeTrigger (settings_after now sv) \<noteq> None \<or>
      tr_id (testRelay (settings_after now sv)) \<noteq> None) \<and>
   (timer_inv sv \<longrightarrow>
      timer_inv (server_after now sv) \<and> length (timers (server_after now sv)) \<le> 1) \<and>
   (intervalId sv \<noteq> None \<and> intervalId (server_after now sv) \<noteq> None \<longrightarrow>
      intervalId (server_after now sv) = intervalId sv \<and>
      timers (server_after now sv) = timers sv \<and>
      (\<forall>h p. SetInterval h p \<notin> set (effects_of now sv)) \<and>
      (\<forall>h. ClearInterval h \<notin> set (effects_of now sv))) \<and>
   (intervalId sv = None \<and> intervalId (server_after now sv) = None \<longrightarrow>
      timers (server_after now sv) = timers sv \<and>
      (\<forall>h p. SetInterval h p \<notin> set (effects_of now sv)) \<and>
      (\<forall>h. ClearInterval h \<notin> set (effects_of now sv))) \<and>
   (intervalId sv \<noteq> None \<and> intervalId (server_after now sv) = None \<longrightarrow>
      timers (server_after now sv) = removeAll (the (intervalId sv)) (timers sv) \<and>
      ClearInterval (the (intervalId sv)) \<in> set (effects_of now sv)) \<and>
   (\<forall>h p. SetInterval h p \<in> set (effects_of now sv) \<longrightarrow>
      p = 100 \<and> intervalId sv = None \<and> intervalId (server_after now sv) = Some h \<and>
      timers (server_after now sv) = h # timers sv)"
proof -
  define S where "S = settings_after now sv"
  define sv1 where "sv1 = sv\<lparr>settings := S\<rparr>"
  have post: "server_after now sv = snd (manage_interval sv1)"
    unfolding sv1_def S_def by (rule calc_snd)
  have eff: "\<And>h p. SetInterval h p \<in> set (effects_of now sv) \<longleftrightarrow>
                 SetInterval h p \<in> set (fst (manage_interval sv1))"
    "\<And>h. ClearInterval h \<in> set (effects_of now sv) \<longleftrightarrow>
                 ClearInterval h \<in> set (fst (manage_interval sv1))"
    unfolding sv1_def S_def by (simp_all add: effects_of_eq)
  have sv1: "settings sv1 = S" "intervalId sv1 = intervalId sv" "timers sv1 = timers sv"
    by (simp_all add: sv1_def)
  have inv: "timer_inv sv1 = timer_inv sv"
    by (simp add: timer_inv_def sv1)
  have armed: "intervalId (snd (manage_interval sv1)) \<noteq> None \<longleftrightarrow>
      activeTrigger S \<noteq> None \<or> tr_id (testRelay S) \<noteq> None"
    using sv1(1) by (auto simp add: manage_interval_cases split: option.splits)
  have keep: "timer_inv sv1 \<Longrightarrow>
      timer_inv (snd (manage_interval sv1)) \<and> length (timers (snd (manage_interval sv1))) \<le> 1"
    by (auto simp add: manage_interval_cases timer_inv_def split: option.splits)
  have same: "intervalId sv1 \<noteq> None \<Longrightarrow> intervalId (snd (manage_interval sv1)) \<noteq> None \<Longrightarrow>
      manage_interval sv1 = ([], sv1)"
    by (auto simp add: manage_interval_cases split: option.splits if_splits)
  have none: "intervalId sv1 = None \<Longrightarrow> intervalId (snd (manage_interval sv1)) = None \<Longrightarrow>
      manage_interval sv1 = ([], sv1)"
    by (auto simp add: manage_interval_cases split: option.splits if_splits)
  have stop: "intervalId sv1 \<noteq> None \<Longrightarrow> intervalId (snd (manage_interval sv1)) = None \<Longrightarrow>
      manage_interval sv1 =
        ([ClearInterval (the (intervalId sv1))],
         sv1\<lparr>timers := removeAll (the (intervalId sv1)) (timers sv1), intervalId := None\<rparr>)"
    by (auto simp add: manage_interval_cases split: option.splits if_splits)
  have c1: "intervalId (server_after now sv) \<noteq> None \<longleftrightarrow>
      activeTrigger (settings_after now sv) \<noteq> None \<or>
      tr_id (testRelay (settings_after now sv)) \<noteq> None"
    using armed unfolding post[symmetric] S_def .
  have c2: "timer_inv sv \<longrightarrow>
      timer_inv (server_after now sv) \<and> length (timers (server_after now sv)) \<le> 1"
    using keep unfolding post[symmetric] inv by blast
  have c3: "intervalId sv \<noteq> None \<and> intervalId (server_after now sv) \<noteq> None \<longrightarrow>
      intervalId (server_after now sv) = intervalId sv \<and>
      timers (server_after now sv) = timers sv \<and>
      (\<forall>h p. SetInterval h p \<notin> set (effects_of now sv)) \<and>
      (\<forall>h. ClearInterval h \<notin> set (effects_of now sv))"
    using same unfolding eff unfolding post sv1(2) by (auto simp add: sv1)
  have c4: "intervalId sv = None \<and> intervalId (server_after now sv) = None \<longrightarrow>
      timers (server_after now sv) = timers sv \<and>
      (\<forall>h p. SetInterval h p \<notin> set (effects_of now sv)) \<and>
      (\<forall>h. ClearInterval h \<notin> set (effects_of now sv))"
    using none unfolding eff unfolding post sv1(2) by (auto simp add: sv1)
  have c5: "intervalId sv \<noteq> None \<and> intervalId (server_after now sv) = None \<longrightarrow>
      timers (server_after now sv) = removeAll (the (intervalId sv)) (timers sv) \<and>
      ClearInterval (the (intervalId sv)) \<in> set (effects_of now sv)"
    using stop unfolding eff unfolding post sv1(2) by (auto simp add: sv1)
  have c6: "\<forall>h p. SetInterval h p \<in> set (effects_of now sv) \<longrightarrow>
      p = 100 \<and> intervalId sv = None \<and> intervalId (server_after now sv) = Some h \<and>
      timers (server_after now sv) = h # timers sv"
  proof (intro allI impI)
    fix h p
    assume "SetInterval h p \<in> set (effects_of now sv)"
    then have m: "SetInterval h p \<in> set (fst (manage_interval sv1))"
      by (simp only: eff)
    then have "manage_interval sv1 =
        ([SetInterval (timers_made sv1) 100],
         sv1\<lparr>intervalId := Some (timers_made sv1), timers := timers_made sv1 # timers sv1,
             timers_made := Suc (timers_made sv1)\<rparr>) \<and> intervalId sv1 = None"
      by (auto simp add: manage_interval_cases split: option.splits if_splits)
    with m show "p = 100 \<and> intervalId sv = None \<and> intervalId (server_after now sv) = Some h \<and>
        timers (server_after now sv) = h # timers sv"
      unfolding post by (auto simp add: sv1)
  qed
  show ?thesis
    by (intro conjI) (rule c1, rule c2, rule c3, rule c4, rule c5, rule c6)
qed

theorem interval_armed_iff_witness:
  "timer_inv (idle_server\<lparr>settings := triggered_settings\<rparr>) \<and>
   intervalId (server_after 0 (idle_server\<lparr>settings := triggered_settings\<rparr>)) \<noteq> None \<and>
   timer_inv (server_after 0 (idle_server\<lparr>settings := triggered_settings\<rparr>)) \<and>
   timer_inv (running triggered_settings) \<and>
   intervalId (server_after 100 (running triggered_settings)) = Some 0 \<and>
   timers (server_after 100 (running triggered_settings)) = [0] \<and>
   intervalId (server_after 8000 (running triggered_settings)) = None \<and>
   timers (server_after 8000 (running triggered_settings)) = []"
proof -
  let ?fresh = "idle_server\<lparr>settings := triggered_settings\<rparr>"
  let ?run = "running triggered_settings"
  have inv: "timer_inv ?fresh" "timer_inv ?run"
    by (simp_all add: timer_inv_def idle_server_def running_def)
  have trig: "activeTrigger (settings_after 0 ?fresh) = Some trigger_A"
    "activeTrigger (settings_after 100 ?run) = Some trigger_A"
    "activeTrigger (settings_after 8000 ?run) = None"
    "tr_id (testRelay (settings_after 8000 ?run)) = None"
    by (simp_all add: after_fields main_trigger_def allEnabledTriggerRelaysFinished_def
        test_override_def idle_server_def running_def triggered_settings_def idle_settings_def
        trigger_A_def default_relays_def no_test_def)
  have start: "intervalId ?run = Some 0" "timers ?run = [0]"
    by (simp_all add: running_def)
  note t0 = interval_armed_iff[of 0 ?fresh]
  note t100 = interval_armed_iff[of 100 ?run]
  note t8000 = interval_armed_iff[of 8000 ?run]
  have a: "intervalId (server_after 0 ?fresh) \<noteq> None \<and> timer_inv (server_after 0 ?fresh)"
    using t0[THEN conjunct1] t0[THEN conjunct2, THEN conjunct1] inv(1) trig(1) by simp
  have "intervalId (server_after 100 ?run) \<noteq> None"
    using t100[THEN conjunct1] trig(2) by simp
  then have b: "intervalId (server_after 100 ?run) = Some 0 \<and> timers (server_after 100 ?run) = [0]"
    using t100[THEN conjunct2, THEN conjunct2, THEN conjunct1] start by simp
  have "intervalId (server_after 8000 ?run) = None"
    using t8000[THEN conjunct1] trig(3,4) by simp
  then have c: "intervalId (server_after 8000 ?run) = None \<and> timers (server_after 8000 ?run) = []"
    using t8000[THEN conjunct2, THEN conjunct2, THEN conjunct2, THEN conjunct2, THEN conjunct1]
      start by simp
  from a b c inv show ?thesis by blast
qed

subsection \<open>C9: a test does not need the alarm\<close>

text \<open>
  Claim C9. With the alarm disabled, the test command for one of the relays 1 to 4 whose
  configuration is enabled succeeds and stores a test of 500 ms with the pulse length of
  that relay. If the evaluation that follows reads the clock less than 500 ms after the
  start of the test, the test is still stored, the relay is on as the test prescribes
  (solid for a pulse length 0, else on exactly when the elapsed time modulo twice the
  pulse length is below the pulse length), every other relay is off, whatever trigger
  the state holds, and \<open>triggerActive\<close> is true.
\<close>

theorem test_not_gated:
  assumes "\<not> alarmEnabled (settings sv)"
    and "relayId \<in> set [''1'', ''2'', ''3'', ''4'']"
    and "map_of (relays (settings sv)) relayId = Some c"
    and "enabled c"
    and "started \<le> now" and "now - started < 500"
  shows "fst (test_relay_command relayId started now sv) = Success \<and>
         testRelay (settings (snd (snd (test_relay_command relayId started now sv)))) =
           \<lparr>tr_id = Some (parseInt relayId), tr_onTimeMs = 500,
            tr_pulseMs = pulseMs c, tr_timestamp = started\<rparr> \<and>
         String (parseInt relayId) = relayId \<and>
         (relay_on relayId
            (currentRelayStates (settings (snd (snd (test_relay_command relayId started now sv)))))
          \<longleftrightarrow> (0 < pulseMs c \<longrightarrow> (now - started) mod (2 * pulseMs c) < pulseMs c)) \<and>
         (\<forall>k. k \<noteq> relayId \<longrightarrow>
            \<not> relay_on k
               (currentRelayStates (settings (snd (snd (test_relay_command relayId started now sv)))))) \<and>
         triggerActive (settings (snd (snd (test_relay_command relayId started now sv))))"
proof -
  let ?t = "\<lparr>tr_id = Some (parseInt relayId), tr_onTimeMs = 500,
             tr_pulseMs = pulseMs c, tr_timestamp = started\<rparr>"
  let ?sv1 = "sv\<lparr>settings := (settings sv)\<lparr>testRelay := ?t\<rparr>\<rparr>"
  have cmd: "test_relay_command relayId started now sv =
      (Success, effects_of now ?sv1, server_after now ?sv1)"
    by (rule test_relay_command_enabled[OF assms(2,3,4)])
  have key: "String (parseInt relayId) = relayId"
    using relay_id_roundtrip[OF assms(2)] by simp
  have M: "main_trigger now (alarmEnabled (settings ?sv1)) (activeTrigger (settings ?sv1)) =
      (all_off, False, activeTrigger (settings sv))"
    using assms(1) by (simp add: main_trigger_cases)
  have T: "test_override now ?t (activeTrigger (settings sv)) all_off False =
      (obj_set relayId (test_value now ?t) all_off, True, ?t, [])"
    using test_override_in_flight[of ?t "parseInt relayId" now "activeTrigger (settings sv)" all_off False]
      assms(6) by (simp add: key)
  have st: "currentRelayStates (settings_after now ?sv1) = obj_set relayId (test_value now ?t) all_off"
    and ta: "triggerActive (settings_after now ?sv1)"
    and te: "testRelay (settings_after now ?sv1) = ?t"
    using after_test[OF M] by (simp_all add: T)
  have val: "test_value now ?t \<longleftrightarrow> (0 < pulseMs c \<longrightarrow> (now - started) mod (2 * pulseMs c) < pulseMs c)"
    using assms(5) by (simp add: test_value_iff js_rem_nonneg)
  have np: "relayId \<noteq> ''__proto__''"
    using assms(2) by auto
  show ?thesis
    unfolding cmd using ta te key val np
    by (simp add: st relay_on_obj_set relay_on_all_off)
qed

theorem test_not_gated_witness:
  "\<not> alarmEnabled (settings (idle_server\<lparr>settings := quiet_settings\<rparr>)) \<and>
   map_of (relays (settings (idle_server\<lparr>settings := quiet_settings\<rparr>))) ''3''
     = Some \<lparr>onTimeMs = 5000, delayMs = 2000, pulseMs = 0, enabled = True\<rparr> \<and>
   fst (test_relay_command ''3'' 1000 1001 (idle_server\<lparr>settings := quiet_settings\<rparr>)) = Success \<and>
   relay_on ''3'' (currentRelayStates (settings (snd (snd
      (test_relay_command ''3'' 1000 1001 (idle_server\<lparr>settings := quiet_settings\<rparr>)))))) \<and>
   \<not> relay_on ''1'' (currentRelayStates (settings (snd (snd
      (test_relay_command ''3'' 1000 1001 (idle_server\<lparr>settings := quiet_settings\<rparr>)))))) \<and>
   triggerActive (settings (snd (snd
      (test_relay_command ''3'' 1000 1001 (idle_server\<lparr>settings := quiet_settings\<rparr>)))))"
proof -
  let ?sv = "idle_server\<lparr>settings := quiet_settings\<rparr>"
  let ?c = "\<lparr>onTimeMs = 5000, delayMs = 2000, pulseMs = 0, enabled = True\<rparr>"
  have a: "\<not> alarmEnabled (settings ?sv)"
    and b: "map_of (relays (settings ?sv)) ''3'' = Some ?c"
    by (simp_all add: quiet_settings_def idle_settings_def default_relays_def)
  have c: "''3'' \<in> set [''1'', ''2'', ''3'', ''4'']" "enabled ?c" "(1000::int) \<le> 1001" "(1001::int) - 1000 < 500"
    by simp_all
  from test_not_gated[OF a c(1) b c(2,3,4)] a b show ?thesis by simp
qed

subsection \<open>C10: nothing is on while the server is idle\<close>

text \<open>
  Claim C10. An evaluation made while there is no trigger and no test in flight leaves
  each of the four relays off, no relay on at all, and \<open>triggerActive\<close> false. Hence a
  relay can be on after an evaluation only if that evaluation found a trigger or a test
  in flight.
\<close>

theorem idle_all_off:
  "(activeTrigger (settings sv) = None \<and> \<not> test_in_flight now (testRelay (settings sv)) \<longrightarrow>
      (\<forall>k \<in> set [''1'', ''2'', ''3'', ''4''].
          map_of (currentRelayStates (settings_after now sv)) k = Some False) \<and>
      (\<forall>k. \<not> relay_on k (currentRelayStates (settings_after now sv))) \<and>
      \<not> triggerActive (settings_after now sv)) \<and>
   (relay_on r (currentRelayStates (settings_after now sv)) \<longrightarrow>
      activeTrigger (settings sv) \<noteq> None \<or> test_in_flight now (testRelay (settings sv)))"
proof -
  {
    assume idle: "activeTrigger (settings sv) = None"
      and calm: "\<not> test_in_flight now (testRelay (settings sv))"
    let ?t = "testRelay (settings sv)"
    have M: "main_trigger now (alarmEnabled (settings sv)) (activeTrigger (settings sv)) =
               (all_off, False, None)"
      by (simp add: idle main_trigger_def)
    have st: "currentRelayStates (settings_after now sv) =
                (if test_pending ?t then obj_set (String (the (tr_id ?t))) False all_off else all_off)"
      and ta: "\<not> triggerActive (settings_after now sv)"
      using calm by (simp_all add: after_fields M test_override_cases)
    have four: "\<forall>k \<in> set [''1'', ''2'', ''3'', ''4''].
        map_of (currentRelayStates (settings_after now sv)) k = Some False"
      by (simp add: st map_of_obj_set map_of_all_off)
    have none: "\<not> relay_on k (currentRelayStates (settings_after now sv))" for k
      by (simp add: st relay_on_obj_set relay_on_all_off)
    note four none ta
  }
  then show ?thesis by blast
qed

theorem idle_all_off_witness:
  "activeTrigger (settings idle_server) = None \<and>
   \<not> test_in_flight 7 (testRelay (settings idle_server)) \<and>
   map_of (currentRelayStates (settings_after 7 idle_server)) ''1'' = Some False \<and>
   map_of (currentRelayStates (settings_after 7 idle_server)) ''4'' = Some False \<and>
   \<not> triggerActive (settings_after 7 idle_server) \<and>
   activeTrigger (settings (running testing_settings)) = None \<and>
   \<not> test_in_flight 5400 (testRelay (settings (running testing_settings))) \<and>
   \<not> relay_on ''3'' (currentRelayStates (settings_after 5400 (running testing_settings)))"
  using idle_all_off[of idle_server 7] idle_all_off[of "running testing_settings" 5400]
  by (simp add: idle_server_def idle_settings_def running_def testing_settings_def
      test3_pulse_def test_in_flight_def test_pending_def no_test_def)

end
